theory Spec2Isabelle
  imports Complex_Main
begin

section \<open>Strings, as the Go standard library splits and joins them\<close>

text \<open>
  A Go \<open>string\<close> is a sequence of bytes; it is modelled as \<^typ>\<open>string\<close> (a list of
  8-bit characters), so \<^const>\<open>length\<close> is Go's \<open>len\<close>.

  \<open>strings.Split(s, sep)\<close> for a one-byte separator: the result always has at least one
  element, and no element contains the separator.
\<close>

fun strings_Split :: "char \<Rightarrow> string \<Rightarrow> string list" where
  "strings_Split sep [] = [ [] ]"
| "strings_Split sep (c # cs) =
     (if c = sep then [] # strings_Split sep cs
      else (case strings_Split sep cs of [] \<Rightarrow> [ [c] ] | l # ls \<Rightarrow> (c # l) # ls))"

text \<open>\<open>strings.Join(elems, sep)\<close> for a one-byte separator.\<close>

fun strings_Join :: "char \<Rightarrow> string list \<Rightarrow> string" where
  "strings_Join sep [] = []"
| "strings_Join sep [x] = x"
| "strings_Join sep (x # y # ys) = x @ sep # strings_Join sep (y # ys)"

definition newline :: char where
  "newline = CHR 0x0A"

text \<open>The decimal rendering of \<open>%d\<close> in \<open>fmt.Sprintf\<close>.\<close>

definition digit_char :: "nat \<Rightarrow> char" where
  "digit_char d = char_of (48 + d)"

function show_nat :: "nat \<Rightarrow> string" where
  "show_nat n = (if n < 10 then [digit_char n] else show_nat (n div 10) @ [digit_char (n mod 10)])"
  by pat_completeness auto
termination
  by (relation "measure (\<lambda>n. n)") auto

definition show_int :: "int \<Rightarrow> string" where
  "show_int i = (if i < 0 then CHR ''-'' # show_nat (nat (- i)) else show_nat (nat i))"

section \<open>The data model of \<open>main.go\<close>\<close>

text \<open>
  \<open>Config\<close>: only the two fields the chunker reads are modelled. Go's \<open>int\<close> is
  modelled as \<^typ>\<open>int\<close>: every quantity below is bounded by the length of a file that
  \<open>processFile\<close> caps at 1 MiB, far from the 64-bit range.
\<close>

record Config =
  MaxChunkSize :: int
  ChunkOverlap :: int

text \<open>The defaults of the command-line flags in \<open>main\<close>.\<close>

definition DefaultConfig :: Config where
  "DefaultConfig = \<lparr>MaxChunkSize = 1000, ChunkOverlap = 100\<rparr>"

text \<open>
  \<open>CodeChunk\<close>. The \<open>float32\<close> components of an embedding and the \<open>float64\<close> score are
  modelled as exact reals: rounding is abstracted away. A nil slice is the empty list.
\<close>

record CodeChunk =
  ID :: string
  Content :: string
  FilePath :: string
  ProjectPath :: string
  Language :: string
  StartLine :: int
  EndLine :: int
  EntityType :: string
  Name :: string
  Signature :: string
  Embedding :: "real list"
  Hash :: string
  Score :: real

text \<open>The zero value of the struct, from which every composite literal starts.\<close>

definition zero_chunk :: CodeChunk where
  "zero_chunk = \<lparr>ID = [], Content = [], FilePath = [], ProjectPath = [], Language = [],
     StartLine = 0, EndLine = 0, EntityType = [], Name = [], Signature = [],
     Embedding = [], Hash = [], Score = 0\<rparr>"

text \<open>Run-time panics and error returns of the modelled code.\<close>

datatype error =
  SliceBoundsOutOfRange
| IndexOutOfRange
| EmbeddingError string
| EmptyEmbedding
| StoreError string

section \<open>The size-based chunker\<close>

text \<open>
  The chunk literal of \<open>chunkBySize\<close> (both the single-chunk return and the one in the
  loop build the same fields).
\<close>

definition size_chunk :: "string \<Rightarrow> string \<Rightarrow> string \<Rightarrow> string \<Rightarrow> int \<Rightarrow> int \<Rightarrow> CodeChunk" where
  "size_chunk filePath projectPath language chunkContent startLine endLine =
     zero_chunk\<lparr>FilePath := filePath, ProjectPath := projectPath, Content := chunkContent,
       StartLine := startLine, EndLine := endLine, EntityType := ''chunk'',
       Name := ''chunk_'' @ show_int startLine @ ''_'' @ show_int endLine,
       Language := language\<rparr>"

definition lines_size :: "string list \<Rightarrow> int" where
  "lines_size ls = sum_list (map (\<lambda>line. int (length line) + 1) ls)"

text \<open>
  The \<open>for i, line := range lines\<close> loop of \<open>chunkBySize\<close>. The arguments after the
  remaining lines are the loop's variables \<open>chunks\<close>, \<open>currentChunk\<close>, \<open>currentSize\<close> and
  \<open>startLine\<close>; \<open>n\<close> is \<open>len(lines)\<close> and \<open>i\<close> the index of the line at the head.
  With a negative \<open>ChunkOverlap\<close> the slice expression
  \<open>currentChunk[len(currentChunk)-overlapLines:]\<close> has a lower bound beyond the length,
  and Go panics.
\<close>

fun chunkBySize_loop ::
  "Config \<Rightarrow> string \<Rightarrow> string \<Rightarrow> string \<Rightarrow> nat \<Rightarrow> nat \<Rightarrow> string list
     \<Rightarrow> CodeChunk list \<Rightarrow> string list \<Rightarrow> int \<Rightarrow> int \<Rightarrow> error + CodeChunk list" where
  "chunkBySize_loop cfg filePath projectPath language n i [] chunks currentChunk currentSize startLine =
     Inr chunks"
| "chunkBySize_loop cfg filePath projectPath language n i (line # rest) chunks currentChunk currentSize startLine =
     (let lineLen = int (length line) + 1;
          currentChunk1 = currentChunk @ [line];
          currentSize1 = currentSize + lineLen
      in if currentSize1 \<ge> MaxChunkSize cfg \<or> int i = int n - 1 then
           (let chunkContent = strings_Join newline currentChunk1;
                endLine = startLine + int (length currentChunk1) - 1;
                chunks1 = chunks @ [size_chunk filePath projectPath language chunkContent startLine endLine];
                overlapLines = (if ChunkOverlap cfg > int (length currentChunk1)
                                then int (length currentChunk1) else ChunkOverlap cfg)
            in if overlapLines < 0 then Inl SliceBoundsOutOfRange
               else
                 (let currentChunk2 = drop (nat (int (length currentChunk1) - overlapLines)) currentChunk1
                  in chunkBySize_loop cfg filePath projectPath language n (Suc i) rest
                       chunks1 currentChunk2 (lines_size currentChunk2) (endLine - overlapLines + 1)))
         else chunkBySize_loop cfg filePath projectPath language n (Suc i) rest
                chunks currentChunk1 currentSize1 startLine)"

definition chunkBySize :: "Config \<Rightarrow> string \<Rightarrow> string \<Rightarrow> string \<Rightarrow> string \<Rightarrow> error + CodeChunk list" where
  "chunkBySize cfg content filePath projectPath language =
     (let lines = strings_Split newline content
      in if int (length content) \<le> MaxChunkSize cfg then
           Inr [size_chunk filePath projectPath language content 1 (int (length lines))]
         else chunkBySize_loop cfg filePath projectPath language (length lines) 0 lines [] [] 0 1)"

section \<open>Regular expressions, as \<open>regexp\<close> matches the two Go patterns\<close>

text \<open>
  Go's \<open>regexp\<close> returns the leftmost match and, among the matches that start there,
  the one a backtracking search finds first. The matcher below is that backtracking
  search, written as a list of successes in the order of preference: the head of the list
  is the match Go reports. Positions are byte offsets. The classes are those the two
  patterns of \<open>chunkGoCode\<close> use: \<open>\s\<close> is \<open>[\t\n\f\r ]\<close>, \<open>\w\<close> is \<open>[0-9A-Za-z_]\<close>
  and \<open>.\<close> is any character but the newline. Go matches \<open>.\<close> against a whole UTF-8
  sequence where the model matches its bytes one by one; since \<open>.*?\<close> is followed by the
  ASCII character \<open>)\<close>, which is no part of a longer sequence, the offsets agree.
\<close>

datatype cls = Space | WordChar | AnyButNewline

fun in_cls :: "cls \<Rightarrow> char \<Rightarrow> bool" where
  "in_cls Space c = (c = CHR 0x09 \<or> c = CHR 0x0A \<or> c = CHR 0x0C \<or> c = CHR 0x0D \<or> c = CHR '' '')"
| "in_cls WordChar c =
     (let k = (of_char c :: nat)
      in (48 \<le> k \<and> k \<le> 57) \<or> (65 \<le> k \<and> k \<le> 90) \<or> (97 \<le> k \<and> k \<le> 122) \<or> c = CHR ''_'')"
| "in_cls AnyButNewline c = (c \<noteq> CHR 0x0A)"

datatype rx =
  Eps
| Lit char
| Cls cls
| Seq rx rx
| Star rx
| LazyStar rx
| Plus rx
| Opt rx
| Group nat rx

text \<open>
  A state of the search: the offset reached, the text that remains, and the capture
  groups closed so far (group number, start, end), the most recent first.
\<close>

type_synonym mstate = "nat \<times> string \<times> (nat \<times> nat \<times> nat) list"

text \<open>
  Repetition: a greedy star prefers one more round, a lazy star prefers to stop. A round
  that consumes nothing is not repeated. The fuel is the length of the remaining text:
  every round consumes a character, so it never runs out before the text does.
\<close>

fun rx_iter :: "(mstate \<Rightarrow> mstate list) \<Rightarrow> bool \<Rightarrow> nat \<Rightarrow> mstate \<Rightarrow> mstate list" where
  "rx_iter step greedy 0 st = [st]"
| "rx_iter step greedy (Suc fuel) st =
     (let more = concat (map (\<lambda>st'. if fst st < fst st' then rx_iter step greedy fuel st' else []) (step st))
      in if greedy then more @ [st] else st # more)"

primrec rx_run :: "rx \<Rightarrow> mstate \<Rightarrow> mstate list" where
  "rx_run Eps st = [st]"
| "rx_run (Lit c) st =
     (case fst (snd st) of [] \<Rightarrow> []
      | x # xs \<Rightarrow> if x = c then [(Suc (fst st), xs, snd (snd st))] else [])"
| "rx_run (Cls k) st =
     (case fst (snd st) of [] \<Rightarrow> []
      | x # xs \<Rightarrow> if in_cls k x then [(Suc (fst st), xs, snd (snd st))] else [])"
| "rx_run (Seq a b) st = concat (map (rx_run b) (rx_run a st))"
| "rx_run (Star a) st = rx_iter (rx_run a) True (length (fst (snd st))) st"
| "rx_run (LazyStar a) st = rx_iter (rx_run a) False (length (fst (snd st))) st"
| "rx_run (Plus a) st =
     concat (map (\<lambda>st'. rx_iter (rx_run a) True (length (fst (snd st'))) st') (rx_run a st))"
| "rx_run (Opt a) st = rx_run a st @ [st]"
| "rx_run (Group g a) st =
     map (\<lambda>st'. (fst st', fst (snd st'), (g, fst st, fst st') # snd (snd st'))) (rx_run a st)"

fun rx_seq :: "rx list \<Rightarrow> rx" where
  "rx_seq [] = Eps"
| "rx_seq [r] = r"
| "rx_seq (r # rs) = Seq r (rx_seq rs)"

text \<open>
  The index slice of one match, as \<open>FindAllStringSubmatchIndex\<close> lays it out for a
  pattern with two groups: the match, group 1, group 2; \<open>-1\<close> for a group that took no
  part.
\<close>

definition group_index :: "(nat \<times> nat \<times> nat) list \<Rightarrow> nat \<Rightarrow> int list" where
  "group_index caps g =
     (case List.find (\<lambda>e. fst e = g) caps of
        None \<Rightarrow> [- 1, - 1]
      | Some e \<Rightarrow> [int (fst (snd e)), int (snd (snd e))])"

definition submatch_index :: "nat \<Rightarrow> nat \<Rightarrow> (nat \<times> nat \<times> nat) list \<Rightarrow> int list" where
  "submatch_index b e caps = [int b, int e] @ group_index caps 1 @ group_index caps 2"

text \<open>
  \<open>FindAllStringSubmatchIndex(content, -1)\<close>: the successive non-overlapping matches,
  each searched from the end of the one before. \<open>pos\<close> is the offset of \<open>s\<close> in the
  content. After an empty match the search moves on by one character (neither pattern of
  \<open>chunkGoCode\<close> matches the empty string: both start with \<open>func\<close>).
\<close>

function find_all :: "rx \<Rightarrow> nat \<Rightarrow> string \<Rightarrow> int list list" where
  "find_all r pos s =
     (case rx_run r (pos, s, []) of
        [] \<Rightarrow> (if s = [] then [] else find_all r (Suc pos) (tl s))
      | st # _ \<Rightarrow>
          submatch_index pos (fst st) (snd (snd st)) #
          (if s = [] then []
           else if pos < fst st then find_all r (fst st) (drop (fst st - pos) s)
           else find_all r (Suc pos) (tl s)))"
  by pat_completeness auto
termination
  by (relation "measure (\<lambda>(r, pos, s). length s)") (auto simp: neq_Nil_conv)

definition FindAllStringSubmatchIndex :: "rx \<Rightarrow> string \<Rightarrow> int list list" where
  "FindAllStringSubmatchIndex r content = find_all r 0 content"

text \<open>\<open>func\s+(\w+)\s*\((.*?)\)(?:\s+\w+)?\s*{\<close>\<close>

definition funcPattern :: rx where
  "funcPattern = rx_seq (map Lit ''func'' @
     [Plus (Cls Space), Group 1 (Plus (Cls WordChar)), Star (Cls Space),
      Lit CHR ''('', Group 2 (LazyStar (Cls AnyButNewline)), Lit CHR '')'',
      Opt (Seq (Plus (Cls Space)) (Plus (Cls WordChar))), Star (Cls Space), Lit CHR ''{''])"

text \<open>\<open>func\s+\(\w+\s+\*?\w+\)\s+(\w+)\s*\((.*?)\)(?:\s+\w+)?\s*{\<close>\<close>

definition methodPattern :: rx where
  "methodPattern = rx_seq (map Lit ''func'' @
     [Plus (Cls Space), Lit CHR ''('', Plus (Cls WordChar), Plus (Cls Space), Opt (Lit CHR ''*''),
      Plus (Cls WordChar), Lit CHR '')'', Plus (Cls Space),
      Group 1 (Plus (Cls WordChar)), Star (Cls Space),
      Lit CHR ''('', Group 2 (LazyStar (Cls AnyButNewline)), Lit CHR '')'',
      Opt (Seq (Plus (Cls Space)) (Plus (Cls WordChar))), Star (Cls Space), Lit CHR ''{''])"

section \<open>The Go chunker\<close>

text \<open>
  The slice expression \<open>content[lo:hi]\<close>. Go panics when the bounds are out of range;
  \<open>chunkGoCode\<close> only slices at offsets of matches in \<open>content\<close>.
\<close>

definition substr :: "string \<Rightarrow> int \<Rightarrow> int \<Rightarrow> string" where
  "substr content lo hi = take (nat (hi - lo)) (drop (nat lo) content)"

text \<open>The local \<open>match\<close> struct of \<open>chunkGoCode\<close>.\<close>

record go_match =
  m_start :: int
  m_end :: int
  m_name :: string
  m_sig :: string
  m_isMethod :: bool

text \<open>The two loops that collect the function and the method matches.\<close>

definition collect_matches :: "string \<Rightarrow> bool \<Rightarrow> int list list \<Rightarrow> go_match list" where
  "collect_matches content isMethod ms =
     map (\<lambda>m. \<lparr>m_start = m ! 0, m_end = m ! 1, m_name = substr content (m ! 2) (m ! 3),
               m_sig = (if length m \<ge> 6 then substr content (m ! 4) (m ! 5) else []),
               m_isMethod = isMethod\<rparr>)
       (filter (\<lambda>m. length m \<ge> 4) ms)"

text \<open>
  \<open>linePositions\<close>: the offset of the start of every line, and one more entry, the
  offset just after the last line's (absent) newline.
\<close>

fun line_positions :: "int \<Rightarrow> string list \<Rightarrow> int list" where
  "line_positions pos [] = [pos]"
| "line_positions pos (line # lines) = pos # line_positions (pos + int (length line) + 1) lines"

text \<open>\<open>sort.Search(n, f)\<close>: the binary search of the standard library.\<close>

function search_loop :: "(nat \<Rightarrow> bool) \<Rightarrow> nat \<Rightarrow> nat \<Rightarrow> nat" where
  "search_loop f i j =
     (if i < j then
        (let h = (i + j) div 2
         in if \<not> f h then search_loop f (h + 1) j else search_loop f i h)
      else i)"
  by pat_completeness auto
termination
  by (relation "measure (\<lambda>(f, i, j). j - i)") auto

definition sort_Search :: "nat \<Rightarrow> (nat \<Rightarrow> bool) \<Rightarrow> nat" where
  "sort_Search n f = search_loop f 0 n"

text \<open>The zero-based line of an offset, clamped at 0 as the source does.\<close>

definition line_index :: "int list \<Rightarrow> int \<Rightarrow> int" where
  "line_index linePositions p =
     (let l = int (sort_Search (length linePositions) (\<lambda>i. linePositions ! i > p)) - 1
      in if l < 0 then 0 else l)"

text \<open>
  The loop \<open>for i, m := range allMatches\<close>: \<open>i < len(allMatches)-1\<close> holds exactly
  when a match follows, and \<open>allMatches[i+1]\<close> is then the head of the rest.
\<close>

fun go_chunks :: "string \<Rightarrow> string \<Rightarrow> string \<Rightarrow> int list \<Rightarrow> go_match list \<Rightarrow> CodeChunk list" where
  "go_chunks content filePath projectPath linePositions [] = []"
| "go_chunks content filePath projectPath linePositions (m # ms) =
     (let startPos = m_start m;
          endPos = (case ms of [] \<Rightarrow> int (length content) | m' # _ \<Rightarrow> m_start m');
          startLine = line_index linePositions startPos;
          endLine = line_index linePositions endPos;
          entityType = (if m_isMethod m then ''method'' else ''function'')
      in zero_chunk\<lparr>FilePath := filePath, ProjectPath := projectPath,
           Content := substr content startPos endPos,
           StartLine := startLine + 1, EndLine := endLine + 1,
           EntityType := entityType, Name := m_name m, Signature := m_sig m,
           Language := ''Go''\<rparr>
         # go_chunks content filePath projectPath linePositions ms)"

text \<open>
  \<open>sort.Slice\<close> orders the matches by start offset. A function match and a method match
  never start at the same offset (after \<open>func\<close> and the blanks one needs a word
  character, the other a parenthesis), so the order is unique and the stable insertion
  sort \<^const>\<open>sort_key\<close> computes it.
\<close>

definition chunkGoCode :: "string \<Rightarrow> string \<Rightarrow> string \<Rightarrow> CodeChunk list" where
  "chunkGoCode content filePath projectPath =
     (let funcMatches = FindAllStringSubmatchIndex funcPattern content;
          methodMatches = FindAllStringSubmatchIndex methodPattern content;
          allMatches = sort_key m_start
            (collect_matches content False funcMatches @ collect_matches content True methodMatches);
          lines = strings_Split newline content;
          linePositions = line_positions 0 lines
      in go_chunks content filePath projectPath linePositions allMatches)"

section \<open>\<open>chunkFile\<close>\<close>

text \<open>
  \<open>md5.Sum\<close> followed by \<open>hex.EncodeToString\<close> belongs to the standard library; it is a
  parameter \<open>md5hex\<close> of the model, and every result below holds for any function in its
  place.
\<close>

definition assign_id_hash :: "(string \<Rightarrow> string) \<Rightarrow> string \<Rightarrow> CodeChunk \<Rightarrow> CodeChunk" where
  "assign_id_hash md5hex filePath c =
     c\<lparr>ID := md5hex (filePath @ '':'' @ show_int (StartLine c) @ '':'' @ show_int (EndLine c)),
       Hash := md5hex (Content c)\<rparr>"

definition chunkFile ::
  "(string \<Rightarrow> string) \<Rightarrow> Config \<Rightarrow> string \<Rightarrow> string \<Rightarrow> string \<Rightarrow> string \<Rightarrow> error + CodeChunk list" where
  "chunkFile md5hex cfg content filePath projectPath language =
     (let chunks = (if language = ''Go'' then chunkGoCode content filePath projectPath else [])
      in case (if length chunks < 2 then chunkBySize cfg content filePath projectPath language
               else Inr chunks) of
           Inl e \<Rightarrow> Inl e
         | Inr chunks \<Rightarrow> Inr (map (assign_id_hash md5hex filePath) chunks))"

section \<open>The project path in \<open>processFile\<close>\<close>

text \<open>
  \<open>filepath.Rel\<close> and \<open>filepath.Join\<close> belong to the standard library and depend on the
  operating system; they are parameters, as is the path separator. When \<open>Rel\<close> fails the
  source falls back to the file path itself.
\<close>

definition processFile_projectPath ::
  "(string \<Rightarrow> string \<Rightarrow> error + string) \<Rightarrow> (string \<Rightarrow> string \<Rightarrow> string) \<Rightarrow> char
     \<Rightarrow> string \<Rightarrow> string \<Rightarrow> string" where
  "processFile_projectPath filepath_Rel filepath_Join separator filePath rootDir =
     (let relPath = (case filepath_Rel rootDir filePath of Inl err \<Rightarrow> filePath | Inr rel \<Rightarrow> rel);
          pathParts = strings_Split separator relPath
      in if length pathParts > 1 then filepath_Join rootDir (pathParts ! 0) else rootDir)"

section \<open>The embedding client\<close>

text \<open>
  A JSON value, and what the HTTP exchange of \<open>getEmbeddings\<close> can come to: a transport
  error of \<open>http.Post\<close>, a body that is not JSON, or a body that is the JSON value \<open>j\<close>.
  The source does not look at the status code.
\<close>

datatype json = JNull | JBool bool | JNum real | JStr string | JArr "json list" | JObj "(string \<times> json) list"

datatype http_result = TransportError string | InvalidJSON string | Body json

text \<open>
  \<open>json.Decoder.Decode\<close> into an \<open>EmbeddingResponse\<close>, following \<open>encoding/json\<close>: a
  JSON \<open>null\<close> leaves the target as it is; an object sets the field whose key is
  \<open>embeddings\<close> (compared after case folding) and ignores every other key; a value of
  the wrong JSON type is an error. A missing key is no error, and the field keeps its zero
  value, the nil slice; a \<open>null\<close> for a slice sets it to nil, a \<open>null\<close> for a number leaves
  the number as it is, zero in a fresh element. A number whose magnitude reaches
  \<open>2^128 - 2^103\<close> rounds beyond the largest \<open>float32\<close> and is an error; the numbers
  within the range are kept as exact reals.
\<close>

definition to_lower_char :: "char \<Rightarrow> char" where
  "to_lower_char c =
     (let k = (of_char c :: nat) in if 65 \<le> k \<and> k \<le> 90 then char_of (k + 32) else c)"

text \<open>
  The case folding of a key: an ASCII letter folds with its other case, and the long s
  (U+017F, the bytes C5 BF) and the Kelvin sign (U+212A, the bytes E2 84 AA) fold with
  \<open>s\<close> and \<open>k\<close>; no other character folds with an ASCII letter.
\<close>

fun foldName :: "string \<Rightarrow> string" where
  "foldName [] = []"
| "foldName [a] = [to_lower_char a]"
| "foldName [a, b] =
     (if a = CHR 0xC5 \<and> b = CHR 0xBF then ''s'' else [to_lower_char a, to_lower_char b])"
| "foldName (a # b # c # cs) =
     (if a = CHR 0xC5 \<and> b = CHR 0xBF then CHR ''s'' # foldName (c # cs)
      else if a = CHR 0xE2 \<and> b = CHR 0x84 \<and> c = CHR 0xAA then CHR ''k'' # foldName cs
      else to_lower_char a # foldName (b # c # cs))"

fun decode_number :: "json \<Rightarrow> error + real" where
  "decode_number JNull = Inr 0"
| "decode_number (JNum x) =
     (if \<bar>x\<bar> < 2 ^ 128 - 2 ^ 103 then Inr x
      else Inl (EmbeddingError ''json: cannot unmarshal number into Go value of type float32''))"
| "decode_number j = Inl (EmbeddingError ''json: cannot unmarshal into Go value of type float32'')"

fun decode_list :: "('a \<Rightarrow> error + 'b) \<Rightarrow> 'a list \<Rightarrow> error + 'b list" where
  "decode_list f [] = Inr []"
| "decode_list f (x # xs) =
     (case f x of Inl e \<Rightarrow> Inl e
      | Inr y \<Rightarrow> (case decode_list f xs of Inl e \<Rightarrow> Inl e | Inr ys \<Rightarrow> Inr (y # ys)))"

fun decode_vector :: "json \<Rightarrow> error + real list" where
  "decode_vector JNull = Inr []"
| "decode_vector (JArr xs) = decode_list decode_number xs"
| "decode_vector j = Inl (EmbeddingError ''json: cannot unmarshal into Go value of type []float32'')"

fun decode_vectors :: "json \<Rightarrow> error + real list list" where
  "decode_vectors JNull = Inr []"
| "decode_vectors (JArr vs) = decode_list decode_vector vs"
| "decode_vectors j = Inl (EmbeddingError ''json: cannot unmarshal into Go value of type [][]float32'')"

fun decode_fields :: "real list list \<Rightarrow> (string \<times> json) list \<Rightarrow> error + real list list" where
  "decode_fields embeddings [] = Inr embeddings"
| "decode_fields embeddings ((k, v) # members) =
     (if foldName k = ''embeddings'' then
        (case decode_vectors v of Inl e \<Rightarrow> Inl e | Inr vs \<Rightarrow> decode_fields vs members)
      else decode_fields embeddings members)"

fun decode_EmbeddingResponse :: "json \<Rightarrow> error + real list list" where
  "decode_EmbeddingResponse JNull = Inr []"
| "decode_EmbeddingResponse (JObj members) = decode_fields [] members"
| "decode_EmbeddingResponse j =
     Inl (EmbeddingError ''json: cannot unmarshal into Go value of type main.EmbeddingResponse'')"

text \<open>
  \<open>getEmbeddings\<close>. The embedding service is a parameter: what the exchange comes to for
  the texts sent. The decoded slice is returned as it is.
\<close>

definition getEmbeddings :: "(string list \<Rightarrow> http_result) \<Rightarrow> string list \<Rightarrow> error + real list list" where
  "getEmbeddings service texts =
     (case service texts of
        TransportError e \<Rightarrow> Inl (EmbeddingError e)
      | InvalidJSON e \<Rightarrow> Inl (EmbeddingError e)
      | Body j \<Rightarrow> decode_EmbeddingResponse j)"

text \<open>
  The loop \<open>for i, embedding := range embeddings { chunks[i].Embedding = embedding }\<close>:
  an index beyond the chunks is a run-time panic.
\<close>

fun assign_embeddings :: "CodeChunk list \<Rightarrow> nat \<Rightarrow> real list list \<Rightarrow> error + CodeChunk list" where
  "assign_embeddings chunks i [] = Inr chunks"
| "assign_embeddings chunks i (embedding # embeddings) =
     (if i < length chunks then
        assign_embeddings (chunks[i := (chunks ! i)\<lparr>Embedding := embedding\<rparr>]) (Suc i) embeddings
      else Inl IndexOutOfRange)"

definition generateEmbeddings :: "(string list \<Rightarrow> http_result) \<Rightarrow> CodeChunk list \<Rightarrow> error + CodeChunk list" where
  "generateEmbeddings service chunks =
     (if chunks = [] then Inr chunks
      else case getEmbeddings service (map Content chunks) of
             Inl e \<Rightarrow> Inl e
           | Inr embeddings \<Rightarrow> assign_embeddings chunks 0 embeddings)"

section \<open>The store writer\<close>

text \<open>
  The Chunk nodes of the store, keyed by \<open>id\<close> (the store keeps \<open>id\<close> unique, and
  \<open>MERGE (c:Chunk {id: $id})\<close> finds or creates the node of that id). The loop of
  \<open>storeChunks\<close> over the chunks returns the new store and the chunks it wrote, in order.
  The Project and File nodes, which carry no chunk attribute, are left out, and so are
  errors of the store itself.
\<close>

fun storeChunks :: "(string \<rightharpoonup> CodeChunk) \<Rightarrow> CodeChunk list \<Rightarrow> (string \<rightharpoonup> CodeChunk) \<times> CodeChunk list" where
  "storeChunks store [] = (store, [])"
| "storeChunks store (chunk # chunks) =
     (case store (ID chunk) of
        Some stored \<Rightarrow>
          if Hash stored = Hash chunk then storeChunks store chunks
          else (case storeChunks (store(ID chunk \<mapsto> chunk)) chunks of
                  (store', written) \<Rightarrow> (store', chunk # written))
      | None \<Rightarrow>
          (case storeChunks (store(ID chunk \<mapsto> chunk)) chunks of
             (store', written) \<Rightarrow> (store', chunk # written)))"

section \<open>Globs, and the patterns the store matches\<close>

definition backslash :: char where
  "backslash = CHR 0x5C"

text \<open>\<open>regexp.QuoteMeta\<close>: a backslash before each of \<open>\.+*?()|[]{}^$\<close>.\<close>

definition regex_special :: "char \<Rightarrow> bool" where
  "regex_special c = (c \<in> set (backslash # ''.+*?()|[]{}^$''))"

fun regexp_QuoteMeta :: "string \<Rightarrow> string" where
  "regexp_QuoteMeta [] = []"
| "regexp_QuoteMeta (c # cs) =
     (if regex_special c then backslash # c # regexp_QuoteMeta cs else c # regexp_QuoteMeta cs)"

text \<open>
  \<open>strings.ReplaceAll(s, old, new)\<close> for a non-empty \<open>old\<close>: the non-overlapping
  occurrences, from the left. (\<open>globToRegex\<close> only passes two-byte values of \<open>old\<close>.)
\<close>

function strings_ReplaceAll :: "string \<Rightarrow> string \<Rightarrow> string \<Rightarrow> string" where
  "strings_ReplaceAll s old new =
     (if s = [] then []
      else if old \<noteq> [] \<and> take (length old) s = old then
        new @ strings_ReplaceAll (drop (length old) s) old new
      else hd s # strings_ReplaceAll (tl s) old new)"
  by pat_completeness auto
termination
  by (relation "measure (\<lambda>(s, old, new). length s)") (auto simp: neq_Nil_conv)

definition globToRegex :: "string \<Rightarrow> string" where
  "globToRegex pattern =
     (let regex = regexp_QuoteMeta pattern;
          regex1 = strings_ReplaceAll regex [backslash, CHR ''*''] ''.*'';
          regex2 = strings_ReplaceAll regex1 [backslash, CHR ''?''] ''.''
      in ''^'' @ regex2 @ ''$'')"

text \<open>
  The store holds a string as a sequence of Unicode characters, and Go hands it over in
  UTF-8. \<open>utf8_decode\<close> gives the code points of a text, by the table of well-formed
  byte sequences of the Unicode standard; a byte that starts no well-formed sequence
  becomes the replacement character U+FFFD.
\<close>

definition is_cont :: "char \<Rightarrow> bool" where
  "is_cont c = (128 \<le> (of_char c :: nat) \<and> (of_char c :: nat) < 192)"

definition second_ok :: "nat \<Rightarrow> nat \<Rightarrow> bool" where
  "second_ok k0 k1 =
     (if k0 = 224 then 160 \<le> k1 \<and> k1 \<le> 191
      else if k0 = 237 then 128 \<le> k1 \<and> k1 \<le> 159
      else if k0 = 240 then 144 \<le> k1 \<and> k1 \<le> 191
      else if k0 = 244 then 128 \<le> k1 \<and> k1 \<le> 143
      else 128 \<le> k1 \<and> k1 \<le> 191)"

text \<open>
  The well-formed multi-byte sequence at the head of a text, if there is one: its code
  point and its number of bytes.
\<close>

definition utf8_seq :: "string \<Rightarrow> (nat \<times> nat) option" where
  "utf8_seq s =
     (case s of
        [] \<Rightarrow> None
      | b0 # r0 \<Rightarrow>
          (let k0 = (of_char b0 :: nat)
           in if 194 \<le> k0 \<and> k0 \<le> 223 then
                (case r0 of
                   b1 # r1 \<Rightarrow>
                     if is_cont b1 then Some ((k0 - 192) * 64 + (of_char b1 - 128), 2) else None
                 | [] \<Rightarrow> None)
              else if 224 \<le> k0 \<and> k0 \<le> 239 then
                (case r0 of
                   b1 # b2 # r2 \<Rightarrow>
                     if second_ok k0 (of_char b1) \<and> is_cont b2 then
                       Some ((k0 - 224) * 4096 + (of_char b1 - 128) * 64 + (of_char b2 - 128), 3)
                     else None
                 | _ \<Rightarrow> None)
              else if 240 \<le> k0 \<and> k0 \<le> 244 then
                (case r0 of
                   b1 # b2 # b3 # r3 \<Rightarrow>
                     if second_ok k0 (of_char b1) \<and> is_cont b2 \<and> is_cont b3 then
                       Some ((k0 - 240) * 262144 + (of_char b1 - 128) * 4096
                             + (of_char b2 - 128) * 64 + (of_char b3 - 128), 4)
                     else None
                 | _ \<Rightarrow> None)
              else None))"

function utf8_decode :: "string \<Rightarrow> nat list" where
  "utf8_decode s =
     (case s of
        [] \<Rightarrow> []
      | b # bs \<Rightarrow>
          if (of_char b :: nat) < 128 then of_char b # utf8_decode bs
          else (case utf8_seq s of
                  Some (cp, n) \<Rightarrow> cp # utf8_decode (drop (n - 1) bs)
                | None \<Rightarrow> 65533 # utf8_decode bs))"
  by pat_completeness auto
termination
  by (relation "measure length") auto

text \<open>
  The store's operator \<open>=~\<close> matches the whole value against a Java regular expression,
  character by character. The model reads the expressions \<open>globToRegex\<close> can produce:
  the anchors, an escaped character (a literal), \<open>.*\<close>, \<open>.\<close> and plain characters.
  Java's \<open>.\<close> matches any character but a line terminator: line feed, carriage return,
  U+0085, U+2028 and U+2029.
\<close>

definition line_terminator :: "nat \<Rightarrow> bool" where
  "line_terminator cp = (cp = 10 \<or> cp = 13 \<or> cp = 133 \<or> cp = 8232 \<or> cp = 8233)"

datatype store_token = Literal nat | Dot | DotStar | LineStart | LineEnd

definition store_regex_token :: "nat \<Rightarrow> store_token" where
  "store_regex_token c =
     (if c = 46 then Dot
      else if c = 94 then LineStart
      else if c = 36 then LineEnd
      else Literal c)"

text \<open>The code points 92, 46 and 42 are the backslash, the dot and the star.\<close>

fun parse_store_regex :: "nat list \<Rightarrow> store_token list" where
  "parse_store_regex [] = []"
| "parse_store_regex [c] = [store_regex_token c]"
| "parse_store_regex (c # d # cs) =
     (if c = 92 then Literal d # parse_store_regex cs
      else if c = 46 \<and> d = 42 then DotStar # parse_store_regex cs
      else store_regex_token c # parse_store_regex (d # cs))"

text \<open>
  The match of a token list against the rest of the value; \<open>first\<close> tells whether the
  rest is still the whole value. The match succeeds when tokens and value end together.
\<close>

fun tokens_match :: "store_token list \<Rightarrow> bool \<Rightarrow> nat list \<Rightarrow> bool" where
  "tokens_match [] first v = (v = [])"
| "tokens_match (Literal c # ts) first v =
     (case v of [] \<Rightarrow> False | x # xs \<Rightarrow> x = c \<and> tokens_match ts False xs)"
| "tokens_match (Dot # ts) first v =
     (case v of [] \<Rightarrow> False | x # xs \<Rightarrow> \<not> line_terminator x \<and> tokens_match ts False xs)"
| "tokens_match (DotStar # ts) first v =
     (tokens_match ts first v
      \<or> (case v of [] \<Rightarrow> False
          | x # xs \<Rightarrow> \<not> line_terminator x \<and> tokens_match (DotStar # ts) False xs))"
| "tokens_match (LineStart # ts) first v = (first \<and> tokens_match ts first v)"
| "tokens_match (LineEnd # ts) first v = (v = [] \<and> tokens_match ts first v)"

definition store_regex_match :: "string \<Rightarrow> string \<Rightarrow> bool" where
  "store_regex_match re v = tokens_match (parse_store_regex (utf8_decode re)) True (utf8_decode v)"

text \<open>
  The store's \<open>size\<close> of a string is its number of characters. It is a parameter of the
  ranking query below; \<open>utf8_length\<close> is that number for a text in UTF-8.
\<close>

definition utf8_length :: "string \<Rightarrow> nat" where
  "utf8_length s = length (utf8_decode s)"

section \<open>Keywords of a query\<close>

text \<open>
  \<open>strings.ToLower\<close> and \<open>strings.Fields\<close> work on Unicode letters and spaces, by the
  tables of the standard library; they are parameters of \<open>extractKeywords\<close>.
  \<open>strings.Trim\<close> with a cutset of ASCII characters removes bytes. \<open>ascii_Fields\<close> and
  \<open>ascii_ToLower\<close> are \<open>strings.Fields\<close> and \<open>strings.ToLower\<close> on ASCII text, for the
  examples.
\<close>

definition is_space :: "char \<Rightarrow> bool" where
  "is_space c = (c \<in> set [CHR 0x09, CHR 0x0A, CHR 0x0B, CHR 0x0C, CHR 0x0D, CHR '' ''])"

fun fields_from :: "string \<Rightarrow> string \<Rightarrow> string list" where
  "fields_from cur [] = (if cur = [] then [] else [rev cur])"
| "fields_from cur (c # cs) =
     (if is_space c then (if cur = [] then fields_from [] cs else rev cur # fields_from [] cs)
      else fields_from (c # cur) cs)"

definition ascii_Fields :: "string \<Rightarrow> string list" where
  "ascii_Fields s = fields_from [] s"

definition ascii_ToLower :: "string \<Rightarrow> string" where
  "ascii_ToLower s = map to_lower_char s"

definition strings_Trim :: "string \<Rightarrow> string \<Rightarrow> string" where
  "strings_Trim s cutset =
     rev (dropWhile (\<lambda>c. c \<in> set cutset) (rev (dropWhile (\<lambda>c. c \<in> set cutset) s)))"

definition stopWords :: "string list" where
  "stopWords = [''a'', ''an'', ''the'', ''and'', ''or'', ''but'',
     ''is'', ''are'', ''was'', ''were'', ''be'', ''been'',
     ''being'', ''have'', ''has'', ''had'', ''do'', ''does'',
     ''did'', ''to'', ''from'', ''in'', ''out'', ''on'',
     ''off'', ''over'', ''under'', ''again'', ''further'',
     ''then'', ''once'', ''here'', ''there'', ''when'',
     ''where'', ''why'', ''how'', ''all'', ''any'', ''both'',
     ''each'', ''few'', ''more'', ''most'', ''other'', ''some'',
     ''such'', ''no'', ''nor'', ''not'', ''only'', ''own'',
     ''same'', ''so'', ''than'', ''too'', ''very'', ''can'',
     ''will'', ''just'', ''should'', ''now'']"

definition extractKeywords :: "(string \<Rightarrow> string) \<Rightarrow> (string \<Rightarrow> string list) \<Rightarrow> string \<Rightarrow> string list" where
  "extractKeywords strings_ToLower strings_Fields query =
     filter (\<lambda>word. \<not> (word = [] \<or> word \<in> set stopWords \<or> length word \<le> 1))
       (map (\<lambda>word. strings_Trim word ''.,;:!?()[]{}-\"'`'') (strings_Fields (strings_ToLower query)))"

text \<open>The store's \<open>CONTAINS\<close>: the second string occurs in the first.\<close>

fun contains_str :: "string \<Rightarrow> string \<Rightarrow> bool" where
  "contains_str [] k = (k = [])"
| "contains_str (c # cs) k = (take (length k) (c # cs) = k \<or> contains_str cs k)"

section \<open>The ranking query of \<open>SearchCodeAdvanced\<close>\<close>

text \<open>
  The \<open>WHERE\<close> clause built in front of the scoring: the language filter when
  \<open>languages\<close> is not empty, the disjunction of the path patterns when \<open>pathFilters\<close> is
  not empty, and the disjunction of \<open>CONTAINS\<close> over the keywords longer than 3 when
  \<open>useKeywords\<close> holds and there is such a keyword.
\<close>

definition candidate :: "string list \<Rightarrow> string list \<Rightarrow> bool \<Rightarrow> string list \<Rightarrow> CodeChunk \<Rightarrow> bool" where
  "candidate languages pathFilters useKeywords keywords c =
     ((languages = [] \<or> Language c \<in> set languages)
      \<and> (pathFilters = [] \<or> (\<exists>p\<in>set pathFilters. store_regex_match (globToRegex p) (FilePath c)))
      \<and> (\<not> (useKeywords \<and> keywords \<noteq> []) \<or> filter (\<lambda>k. length k > 3) keywords = []
           \<or> (\<exists>k\<in>set (filter (\<lambda>k. length k > 3) keywords). contains_str (Content c) k)))"

text \<open>
  The three adjustments of the query. \<open>size_of\<close> stands for the store's \<open>size\<close>, which
  counts the characters of \<open>c.content\<close>, not its bytes.
\<close>

definition entityBoost :: "CodeChunk \<Rightarrow> real" where
  "entityBoost c = (if EntityType c = ''function'' \<or> EntityType c = ''method'' then 0.1 else 0)"

definition sizeBoost :: "(string \<Rightarrow> nat) \<Rightarrow> CodeChunk \<Rightarrow> real" where
  "sizeBoost size_of c = (if size_of (Content c) < 500 then 0.05 else 0)"

definition sizePenalty :: "(string \<Rightarrow> nat) \<Rightarrow> CodeChunk \<Rightarrow> real" where
  "sizePenalty size_of c = (if size_of (Content c) > 2000 then - 0.05 else 0)"

text \<open>
  The query proper, on the Chunk nodes \<open>nodes\<close> in the order the store visits them.
  \<open>cosine\<close> stands for \<open>gds.similarity.cosine\<close>, a procedure of the store; scores are exact
  reals. \<open>ORDER BY score DESC\<close> leaves the order of equal scores open; the model keeps
  them in the order of the nodes.
\<close>

definition ranked :: "(real list \<Rightarrow> real list \<Rightarrow> real) \<Rightarrow> (string \<Rightarrow> nat) \<Rightarrow> real list \<Rightarrow> real
     \<Rightarrow> CodeChunk list \<Rightarrow> (CodeChunk \<times> real) list" where
  "ranked cosine size_of embedding minScore nodes =
     (let withVector = filter (\<lambda>(c, vectorScore). vectorScore > minScore)
            (map (\<lambda>c. (c, cosine (Embedding c) embedding)) nodes);
          withScore = filter (\<lambda>(c, score). score > minScore)
            (map (\<lambda>(c, vectorScore).
                    (c, vectorScore + entityBoost c + sizeBoost size_of c + sizePenalty size_of c))
               withVector)
      in sort_key (\<lambda>(c, score). - score) withScore)"

text \<open>
  The chunk built from one record of the result; \<open>c.project_path\<close> is returned by the
  query but not read, and neither the embedding nor the hash is returned.
\<close>

definition result_chunk :: "CodeChunk \<times> real \<Rightarrow> CodeChunk" where
  "result_chunk r = (case r of (c, score) \<Rightarrow>
     zero_chunk\<lparr>ID := ID c, Content := Content c, FilePath := FilePath c,
       StartLine := StartLine c, EndLine := EndLine c, EntityType := EntityType c,
       Name := Name c, Language := Language c, Signature := Signature c, Score := score\<rparr>)"

text \<open>
  \<open>SearchCodeAdvanced\<close>. Besides the embedding service, the parameters that stand for
  code outside the repository are \<open>cosine\<close> and \<open>size_of\<close> (the store's \<open>size\<close>) and
  \<open>strings.ToLower\<close> and \<open>strings.Fields\<close> of the standard library. The store rejects a
  negative \<open>LIMIT\<close>, and the query fails then.
\<close>

definition SearchCodeAdvanced ::
  "(string list \<Rightarrow> http_result) \<Rightarrow> (real list \<Rightarrow> real list \<Rightarrow> real) \<Rightarrow> (string \<Rightarrow> nat)
     \<Rightarrow> (string \<Rightarrow> string) \<Rightarrow> (string \<Rightarrow> string list) \<Rightarrow> CodeChunk list
     \<Rightarrow> string \<Rightarrow> int \<Rightarrow> string list \<Rightarrow> string list \<Rightarrow> real \<Rightarrow> bool \<Rightarrow> error + CodeChunk list" where
  "SearchCodeAdvanced service cosine size_of strings_ToLower strings_Fields nodes
       query limit languages pathFilters minScore useKeywords =
     (case getEmbeddings service [query] of
        Inl e \<Rightarrow> Inl e
      | Inr embeddings \<Rightarrow>
          if embeddings = [] \<or> hd embeddings = [] then Inl EmptyEmbedding
          else
            (let queryEmbedding = hd embeddings;
                 keywords = extractKeywords strings_ToLower strings_Fields query
             in if nodes = [] then Inr []
                else if limit < 0 then Inl (StoreError ''LIMIT must be a non-negative integer'')
                else Inr (map result_chunk (take (nat limit)
                       (ranked cosine size_of queryEmbedding minScore
                          (filter (candidate languages pathFilters useKeywords keywords) nodes))))))"

section \<open>Sample inputs\<close>

text \<open>The file of the single-function ingest scenario.\<close>

definition hello_go :: string where
  "hello_go = ''func Hello(name string) string { return \"hi\" }''"

text \<open>A Go file of five lines: a package clause, a function and a method.\<close>

definition sample_go :: string where
  "sample_go = strings_Join newline
     [''package x'', ''func A() {'', ''}'', ''func (t *T) B(x int) error {'', ''}'']"

text \<open>A Go file of one line that holds two functions.\<close>

definition two_funcs_go :: string where
  "two_funcs_go = ''func A() { } func B() { }''"

text \<open>
  A chunk of another kind than function or method whose content is 1250 times the letter
  e with an acute accent, which takes two bytes in UTF-8: 2500 bytes, 1250 characters.
\<close>

definition wide_content :: string where
  "wide_content = concat (replicate 1250 [CHR 0xC3, CHR 0xA9])"

definition wide_chunk :: CodeChunk where
  "wide_chunk = zero_chunk\<lparr>ID := ''w'', Content := wide_content, EntityType := ''chunk''\<rparr>"

section \<open>Removing overlaps: the reading of the coverage property\<close>

text \<open>
  The overlap region of a chunk with respect to its predecessor is the text of the lines
  they share: the first \<open>EndLine prev - StartLine c + 1\<close> lines of \<open>c\<close>, joined as the
  chunker joins them. \<open>reconstruct\<close> concatenates the first chunk with every later chunk
  stripped of that region.
\<close>

definition overlap_region :: "CodeChunk \<Rightarrow> CodeChunk \<Rightarrow> string" where
  "overlap_region prev c =
     strings_Join newline (take (nat (EndLine prev - StartLine c + 1)) (strings_Split newline (Content c)))"

fun strip_overlaps :: "CodeChunk \<Rightarrow> CodeChunk list \<Rightarrow> string" where
  "strip_overlaps prev [] = []"
| "strip_overlaps prev (c # cs) =
     drop (length (overlap_region prev c)) (Content c) @ strip_overlaps c cs"

fun reconstruct :: "CodeChunk list \<Rightarrow> string" where
  "reconstruct [] = []"
| "reconstruct (c # cs) = Content c @ strip_overlaps c cs"

text \<open>Line \<open>L\<close> lies within the inclusive line range of one of the chunks.\<close>

definition covers :: "CodeChunk list \<Rightarrow> int \<Rightarrow> bool" where
  "covers cs L = (\<exists>c\<in>set cs. StartLine c \<le> L \<and> L \<le> EndLine c)"

text \<open>The data-model invariant on line numbers.\<close>

definition line_range_ok :: "CodeChunk \<Rightarrow> bool" where
  "line_range_ok c = (1 \<le> StartLine c \<and> StartLine c \<le> EndLine c)"

section \<open>Properties of splitting and joining\<close>

lemma strings_Split_nonempty: "strings_Split sep s \<noteq> []"
  by (induction s) (auto split: list.splits)

lemma strings_Join_Split: "strings_Join sep (strings_Split sep s) = s"
proof (induction s)
  case Nil
  show ?case by simp
next
  case (Cons c cs)
  obtain l ls where eq: "strings_Split sep cs = l # ls"
    using strings_Split_nonempty [of sep cs] by (cases "strings_Split sep cs") auto
  show ?case
    using Cons eq by (cases ls) auto
qed

lemma strings_Split_no_sep: "l \<in> set (strings_Split sep s) \<Longrightarrow> sep \<notin> set l"
proof (induction s arbitrary: l)
  case Nil
  then show ?case by simp
next
  case (Cons c cs)
  obtain x xs where eq: "strings_Split sep cs = x # xs"
    using strings_Split_nonempty [of sep cs] by (cases "strings_Split sep cs") auto
  show ?case
    using Cons eq by (auto split: if_splits)
qed

lemma strings_Join_append:
  "xs \<noteq> [] \<Longrightarrow> ys \<noteq> [] \<Longrightarrow> strings_Join sep (xs @ ys) = strings_Join sep xs @ sep # strings_Join sep ys"
proof (induction sep xs rule: strings_Join.induct)
  case (1 sep)
  then show ?case by simp
next
  case (2 sep x)
  then show ?case by (cases ys) auto
next
  case (3 sep x y ys')
  then show ?case by simp
qed

lemma strings_Split_append_no_sep:
  "sep \<notin> set x \<Longrightarrow> strings_Split sep (x @ sep # s) = x # strings_Split sep s"
  by (induction x) (auto split: list.splits)

lemma strings_Split_no_sep_single: "sep \<notin> set x \<Longrightarrow> strings_Split sep x = [x]"
  by (induction x) (auto split: list.splits)

lemma strings_Split_Join:
  "ls \<noteq> [] \<Longrightarrow> \<forall>l\<in>set ls. sep \<notin> set l \<Longrightarrow> strings_Split sep (strings_Join sep ls) = ls"
proof (induction sep ls rule: strings_Join.induct)
  case (1 sep)
  then show ?case by simp
next
  case (2 sep x)
  then show ?case by (simp add: strings_Split_no_sep_single)
next
  case (3 sep x y ys)
  then show ?case by (simp add: strings_Split_append_no_sep)
qed

section \<open>Reconstruction from the size-based chunks\<close>

lemma strip_overlaps_snoc:
  "strip_overlaps p (cs @ [c]) =
     strip_overlaps p cs @ drop (length (overlap_region (last (p # cs)) c)) (Content c)"
  by (induction cs arbitrary: p) auto

lemma reconstruct_snoc:
  "cs \<noteq> [] \<Longrightarrow>
   reconstruct (cs @ [c]) = reconstruct cs @ drop (length (overlap_region (last cs) c)) (Content c)"
  by (cases cs) (auto simp: strip_overlaps_snoc)

lemma strip_shared_lines:
  assumes nosep: "\<forall>l\<in>set ls. sep \<notin> set l"
    and sE: "s < E" and El: "E < length ls"
  shows "strings_Join sep (take E ls) @
         drop (length (strings_Join sep (take (E - s) (strings_Split sep (strings_Join sep (drop s ls))))))
           (strings_Join sep (drop s ls)) = strings_Join sep ls"
proof -
  let ?A = "take (E - s) (drop s ls)" and ?B = "drop E ls"
  have ne: "drop s ls \<noteq> []" using sE El by simp
  have "\<forall>l\<in>set (drop s ls). sep \<notin> set l"
    using nosep by (meson in_set_dropD)
  then have split: "strings_Split sep (strings_Join sep (drop s ls)) = drop s ls"
    using ne by (rule strings_Split_Join [rotated])
  have AB: "drop s ls = ?A @ ?B"
    using sE by (metis add_diff_inverse_nat append_take_drop_id drop_drop less_imp_le_nat not_less add.commute)
  have A: "?A \<noteq> []" using sE El by simp
  have B: "?B \<noteq> []" using El by simp
  have "strings_Join sep (drop s ls) = strings_Join sep ?A @ sep # strings_Join sep ?B"
    using strings_Join_append [OF A B, of sep] AB by simp
  then have dropped:
    "drop (length (strings_Join sep ?A)) (strings_Join sep (drop s ls)) = sep # strings_Join sep ?B"
    by simp
  have tE: "take E ls \<noteq> []" using sE El by (cases ls) auto
  have "strings_Join sep ls = strings_Join sep (take E ls) @ sep # strings_Join sep ?B"
    using strings_Join_append [OF tE B, of sep] by simp
  then show ?thesis using dropped split by simp
qed

section \<open>The loop of the size-based chunker, one iteration at a time\<close>

lemma loop_emit:
  assumes "MaxChunkSize cfg \<le> sz + (int (length line) + 1) \<or> int i = int n - 1"
  shows "chunkBySize_loop cfg fp pp lang n i (line # rest) chunks cur sz start =
     (if min (ChunkOverlap cfg) (int (length cur) + 1) < 0 then Inl SliceBoundsOutOfRange
      else chunkBySize_loop cfg fp pp lang n (Suc i) rest
        (chunks @ [size_chunk fp pp lang (strings_Join newline (cur @ [line])) start (start + int (length cur))])
        (drop (nat (int (length cur) + 1 - min (ChunkOverlap cfg) (int (length cur) + 1))) (cur @ [line]))
        (lines_size (drop (nat (int (length cur) + 1 - min (ChunkOverlap cfg) (int (length cur) + 1))) (cur @ [line])))
        (start + int (length cur) - min (ChunkOverlap cfg) (int (length cur) + 1) + 1))"
proof -
  have m: "(if ChunkOverlap cfg > int (length (cur @ [line])) then int (length (cur @ [line])) else ChunkOverlap cfg)
      = min (ChunkOverlap cfg) (int (length cur) + 1)"
    by (simp add: min_def)
  have e: "start + int (length (cur @ [line])) - 1 = start + int (length cur)"
    by simp
  show ?thesis
    using assms unfolding chunkBySize_loop.simps Let_def m e
    by (simp only: if_True length_append_singleton of_nat_Suc add.commute [of 1])
qed

lemma loop_skip:
  assumes "\<not> (MaxChunkSize cfg \<le> sz + (int (length line) + 1) \<or> int i = int n - 1)"
  shows "chunkBySize_loop cfg fp pp lang n i (line # rest) chunks cur sz start =
     chunkBySize_loop cfg fp pp lang n (Suc i) rest chunks (cur @ [line]) (sz + (int (length line) + 1)) start"
  using assms unfolding chunkBySize_loop.simps Let_def by (simp only: if_False)

lemma loop_reconstruct:
  assumes ov: "0 < ChunkOverlap cfg"
  shows "chunkBySize_loop cfg fp pp lang n (length pre) rest chunks (drop s pre) sz (int s + 1) = Inr out \<Longrightarrow>
     n = length pre + length rest \<Longrightarrow>
     \<forall>l\<in>set (pre @ rest). newline \<notin> set l \<Longrightarrow>
     s \<le> length pre \<Longrightarrow>
     (chunks = [] \<longrightarrow> s = 0) \<Longrightarrow>
     (chunks \<noteq> [] \<longrightarrow> int s + 1 \<le> EndLine (last chunks) \<and> EndLine (last chunks) \<le> int (length pre)
        \<and> reconstruct chunks = strings_Join newline (take (nat (EndLine (last chunks))) pre)) \<Longrightarrow>
     (rest = [] \<longrightarrow> chunks \<noteq> [] \<and> EndLine (last chunks) = int (length pre)) \<Longrightarrow>
     reconstruct out = strings_Join newline (pre @ rest)"
proof (induction rest arbitrary: pre chunks s sz)
  case Nil
  then show ?case by simp
next
  case (Cons line rest)
  let ?pre = "pre @ [line]"
  let ?cur = "drop s pre"
  have cur1: "?cur @ [line] = drop s ?pre"
    using Cons.prems(4) by simp
  have len_cur: "int (length ?cur) = int (length pre) - int s"
    using Cons.prems(4) by simp
  have n: "n = length ?pre + length rest"
    using Cons.prems(2) by simp
  have nosep: "\<forall>l\<in>set (?pre @ rest). newline \<notin> set l"
    using Cons.prems(3) by simp
  show ?case
  proof (cases "MaxChunkSize cfg \<le> sz + (int (length line) + 1) \<or> int (length pre) = int n - 1")
    case False
    then have rest_ne: "rest \<noteq> []"
      using Cons.prems(2) by auto
    have run: "chunkBySize_loop cfg fp pp lang n (length ?pre) rest chunks (drop s ?pre)
        (sz + (int (length line) + 1)) (int s + 1) = Inr out"
      using Cons.prems(1) loop_skip [OF False] cur1 by simp
    have inv: "chunks \<noteq> [] \<longrightarrow> int s + 1 \<le> EndLine (last chunks) \<and> EndLine (last chunks) \<le> int (length ?pre)
        \<and> reconstruct chunks = strings_Join newline (take (nat (EndLine (last chunks))) ?pre)"
      using Cons.prems(6) by auto
    have "reconstruct out = strings_Join newline (?pre @ rest)"
      using Cons.IH [OF run n nosep _ Cons.prems(5) inv] rest_ne Cons.prems(4) by simp
    then show ?thesis by simp
  next
    case True
    define m where "m = min (ChunkOverlap cfg) (int (length ?cur) + 1)"
    define s' where "s' = nat (int (length ?pre) - m)"
    define c where "c = size_chunk fp pp lang (strings_Join newline (drop s ?pre)) (int s + 1) (int (length ?pre))"
    have m_pos: "0 < m" and m_le: "m \<le> int (length ?pre) - int s"
      using ov len_cur by (auto simp: m_def)
    have s'_le: "s' \<le> length ?pre" and s_le_s': "s \<le> s'"
      using m_pos m_le by (auto simp: s'_def)
    have ints': "int s' = int (length ?pre) - m"
      using m_le by (simp add: s'_def)
    have d: "drop (nat (int (length ?cur) + 1 - m)) (drop s ?pre) = drop s' ?pre"
    proof -
      have "nat (int (length ?cur) + 1 - m) + s = s'"
        using m_le len_cur Cons.prems(4) by (simp add: s'_def nat_add_distrib nat_diff_distrib)
      then show ?thesis
        by (simp only: drop_drop)
    qed
    have st: "int (length ?pre) - m + 1 = int s' + 1"
      using ints' by simp
    have e: "int s + 1 + int (length ?cur) = int (length ?pre)"
      using len_cur by simp
    have nm: "(m < 0) = False"
      using m_pos by simp
    have lp: "Suc (length pre) = length ?pre"
      by simp
    have step: "chunkBySize_loop cfg fp pp lang n (length pre) (line # rest) chunks ?cur sz (int s + 1) =
        chunkBySize_loop cfg fp pp lang n (length ?pre) rest (chunks @ [c]) (drop s' ?pre)
          (lines_size (drop s' ?pre)) (int s' + 1)"
      unfolding loop_emit [OF True] m_def [symmetric] nm if_False cur1 d e st c_def lp
      by (rule refl)
    have run: "chunkBySize_loop cfg fp pp lang n (length ?pre) rest (chunks @ [c]) (drop s' ?pre)
        (lines_size (drop s' ?pre)) (int s' + 1) = Inr out"
      using Cons.prems(1) unfolding step .
    have c_fields: "Content c = strings_Join newline (drop s ?pre)" "StartLine c = int s + 1"
        "EndLine c = int (length ?pre)"
      by (simp_all add: c_def size_chunk_def)
    have rec: "reconstruct (chunks @ [c]) = strings_Join newline ?pre"
    proof (cases "chunks = []")
      case True
      then show ?thesis using Cons.prems(5) c_fields by simp
    next
      case False
      let ?E = "nat (EndLine (last chunks))"
      from False Cons.prems(6) have E1: "int s + 1 \<le> EndLine (last chunks)"
        and E2: "EndLine (last chunks) \<le> int (length pre)"
        and E3: "reconstruct chunks = strings_Join newline (take ?E pre)"
        by auto
      have sE: "s < ?E" and El: "?E < length ?pre" and Ele: "?E \<le> length pre"
        using E1 E2 by auto
      have ovl: "overlap_region (last chunks) c =
          strings_Join newline (take (?E - s) (strings_Split newline (strings_Join newline (drop s ?pre))))"
      proof -
        have "nat (EndLine (last chunks) - (int s + 1) + 1) = ?E - s"
          using E1 by (simp add: nat_diff_distrib)
        then show ?thesis by (simp add: overlap_region_def c_fields)
      qed
      have np: "\<forall>l\<in>set ?pre. newline \<notin> set l"
        using Cons.prems(3) by simp
      have tk: "take ?E pre = take ?E ?pre"
        using Ele by simp
      show ?thesis
        using strip_shared_lines [OF np sE El]
        unfolding reconstruct_snoc [OF False] ovl E3 tk c_fields by simp
    qed
    have inv1: "chunks @ [c] = [] \<longrightarrow> s' = 0" by simp
    have inv2: "chunks @ [c] \<noteq> [] \<longrightarrow> int s' + 1 \<le> EndLine (last (chunks @ [c]))
        \<and> EndLine (last (chunks @ [c])) \<le> int (length ?pre)
        \<and> reconstruct (chunks @ [c]) = strings_Join newline (take (nat (EndLine (last (chunks @ [c])))) ?pre)"
      using rec c_fields ints' m_pos by simp
    have inv3: "rest = [] \<longrightarrow> chunks @ [c] \<noteq> [] \<and> EndLine (last (chunks @ [c])) = int (length ?pre)"
      using c_fields by simp
    have "reconstruct out = strings_Join newline (?pre @ rest)"
      by (rule Cons.IH [OF run n nosep s'_le inv1 inv2 inv3])
    then show ?thesis by simp
  qed
qed

lemma loop_total:
  "0 \<le> ChunkOverlap cfg \<Longrightarrow>
   \<exists>out. chunkBySize_loop cfg fp pp lang n i rest chunks cur sz start = Inr out"
proof (induction rest arbitrary: i chunks cur sz start)
  case Nil
  show ?case by simp
next
  case (Cons line rest)
  show ?case
  proof (cases "MaxChunkSize cfg \<le> sz + (int (length line) + 1) \<or> int i = int n - 1")
    case True
    have "\<not> min (ChunkOverlap cfg) (int (length cur) + 1) < 0"
      using Cons.prems by simp
    then show ?thesis
      unfolding loop_emit [OF True] using Cons.IH [OF Cons.prems] by simp
  next
    case False
    show ?thesis
      unfolding loop_skip [OF False] using Cons.IH [OF Cons.prems] by simp
  qed
qed

text \<open>
  C2. For every input text, every \<open>MaxChunkSize\<close> (positive or not) and every positive
  \<open>ChunkOverlap\<close>, the size-based chunker returns a list of chunks, and concatenating
  the first chunk with every later chunk stripped of the lines it repeats from its
  predecessor gives back the input text byte for byte.
\<close>

theorem chunkBySize_reconstructs_content:
  assumes "0 < ChunkOverlap cfg"
  shows "\<exists>chunks. chunkBySize cfg content filePath projectPath language = Inr chunks
           \<and> reconstruct chunks = content"
proof (cases "int (length content) \<le> MaxChunkSize cfg")
  case True
  then show ?thesis
    by (simp add: chunkBySize_def Let_def size_chunk_def)
next
  case False
  let ?lines = "strings_Split newline content"
  obtain out where out:
    "chunkBySize_loop cfg filePath projectPath language (length ?lines) 0 ?lines [] [] 0 1 = Inr out"
    using loop_total [of cfg] assms by fastforce
  have run: "chunkBySize_loop cfg filePath projectPath language (length ?lines) (length ([]::string list))
      ?lines [] (drop 0 []) 0 (int 0 + 1) = Inr out"
    using out by simp
  have nosep: "\<forall>l\<in>set ([] @ ?lines). newline \<notin> set l"
    by (simp add: strings_Split_no_sep)
  have "reconstruct out = strings_Join newline ([] @ ?lines)"
    by (rule loop_reconstruct [OF assms run _ nosep]) (simp_all add: strings_Split_nonempty)
  then have "reconstruct out = content"
    by (simp add: strings_Join_Split)
  then show ?thesis
    using False out by (simp add: chunkBySize_def)
qed

theorem chunkBySize_reconstructs_content_witness:
  "0 < ChunkOverlap \<lparr>MaxChunkSize = 4, ChunkOverlap = 1\<rparr>
   \<and> chunkBySize \<lparr>MaxChunkSize = 4, ChunkOverlap = 1\<rparr> (''ab'' @ [newline] @ ''cd'' @ [newline] @ ''ef'')
        ''a.py'' ''/r'' ''Python''
       = Inr [size_chunk ''a.py'' ''/r'' ''Python'' (''ab'' @ [newline] @ ''cd'') 1 2,
              size_chunk ''a.py'' ''/r'' ''Python'' (''cd'' @ [newline] @ ''ef'') 2 3]
   \<and> (\<exists>chunks. chunkBySize \<lparr>MaxChunkSize = 4, ChunkOverlap = 1\<rparr> (''ab'' @ [newline] @ ''cd'' @ [newline] @ ''ef'')
        ''a.py'' ''/r'' ''Python'' = Inr chunks
      \<and> reconstruct chunks = ''ab'' @ [newline] @ ''cd'' @ [newline] @ ''ef'')"
proof -
  have h: "0 < ChunkOverlap \<lparr>MaxChunkSize = 4, ChunkOverlap = 1\<rparr>"
    by simp
  have ev: "chunkBySize \<lparr>MaxChunkSize = 4, ChunkOverlap = 1\<rparr> (''ab'' @ [newline] @ ''cd'' @ [newline] @ ''ef'')
        ''a.py'' ''/r'' ''Python''
       = Inr [size_chunk ''a.py'' ''/r'' ''Python'' (''ab'' @ [newline] @ ''cd'') 1 2,
              size_chunk ''a.py'' ''/r'' ''Python'' (''cd'' @ [newline] @ ''ef'') 2 3]"
    by (simp add: chunkBySize_def newline_def lines_size_def)
  show ?thesis
    using h ev chunkBySize_reconstructs_content [OF h] by blast
qed

section \<open>Line ranges of the size-based chunks\<close>

lemma size_chunk_fields:
  "Content (size_chunk fp pp lang txt a b) = txt"
  "StartLine (size_chunk fp pp lang txt a b) = a"
  "EndLine (size_chunk fp pp lang txt a b) = b"
  "EntityType (size_chunk fp pp lang txt a b) = ''chunk''"
  by (simp_all add: size_chunk_def)

lemma loop_line_ranges:
  "chunkBySize_loop cfg fp pp lang n i rest chunks cur sz start = Inr out \<Longrightarrow>
   1 \<le> start \<Longrightarrow> \<forall>c\<in>set chunks. line_range_ok c \<Longrightarrow>
   \<forall>c\<in>set out. line_range_ok c"
proof (induction rest arbitrary: i chunks cur sz start)
  case Nil
  then show ?case by simp
next
  case (Cons line rest)
  show ?case
  proof (cases "MaxChunkSize cfg \<le> sz + (int (length line) + 1) \<or> int i = int n - 1")
    case True
    let ?m = "min (ChunkOverlap cfg) (int (length cur) + 1)"
    let ?c = "size_chunk fp pp lang (strings_Join newline (cur @ [line])) start (start + int (length cur))"
    have nm: "\<not> ?m < 0"
      using Cons.prems(1) unfolding loop_emit [OF True] by (auto split: if_splits)
    have run: "chunkBySize_loop cfg fp pp lang n (Suc i) rest (chunks @ [?c])
        (drop (nat (int (length cur) + 1 - ?m)) (cur @ [line]))
        (lines_size (drop (nat (int (length cur) + 1 - ?m)) (cur @ [line])))
        (start + int (length cur) - ?m + 1) = Inr out"
      using Cons.prems(1) nm unfolding loop_emit [OF True] by simp
    have st: "1 \<le> start + int (length cur) - ?m + 1"
      using Cons.prems(2) by simp
    have ok: "\<forall>c\<in>set (chunks @ [?c]). line_range_ok c"
      using Cons.prems(2,3) by (simp add: line_range_ok_def size_chunk_fields)
    show ?thesis
      by (rule Cons.IH [OF run st ok])
  next
    case False
    have run: "chunkBySize_loop cfg fp pp lang n (Suc i) rest chunks (cur @ [line])
        (sz + (int (length line) + 1)) start = Inr out"
      using Cons.prems(1) unfolding loop_skip [OF False] .
    show ?thesis
      by (rule Cons.IH [OF run Cons.prems(2,3)])
  qed
qed

lemma chunkBySize_line_ranges:
  assumes "chunkBySize cfg content fp pp lang = Inr chunks"
  shows "\<forall>c\<in>set chunks. line_range_ok c"
proof (cases "int (length content) \<le> MaxChunkSize cfg")
  case True
  have "1 \<le> int (length (strings_Split newline content))"
    using strings_Split_nonempty [of newline content]
    by (cases "strings_Split newline content") auto
  then show ?thesis
    using assms True by (auto simp: chunkBySize_def Let_def line_range_ok_def size_chunk_fields)
next
  case False
  then have "chunkBySize_loop cfg fp pp lang (length (strings_Split newline content)) 0
      (strings_Split newline content) [] [] 0 1 = Inr chunks"
    using assms by (simp add: chunkBySize_def Let_def)
  then show ?thesis
    by (rule loop_line_ranges) simp_all
qed

lemma covers_append: "covers cs L \<Longrightarrow> covers (cs @ [c]) L"
  by (auto simp: covers_def)

lemma covers_last: "StartLine c \<le> L \<Longrightarrow> L \<le> EndLine c \<Longrightarrow> covers (cs @ [c]) L"
  by (auto simp: covers_def)

lemma loop_covers:
  "chunkBySize_loop cfg fp pp lang n i rest chunks cur sz start = Inr out \<Longrightarrow>
   n = i + length rest \<Longrightarrow>
   start + int (length cur) = int i + 1 \<Longrightarrow>
   (\<forall>L. 1 \<le> L \<and> L < start \<longrightarrow> covers chunks L) \<Longrightarrow>
   (rest = [] \<longrightarrow> (\<forall>L. 1 \<le> L \<and> L \<le> int n \<longrightarrow> covers chunks L)) \<Longrightarrow>
   (case chunks of [] \<Rightarrow> start = 1 | c # _ \<Rightarrow> StartLine c = 1) \<Longrightarrow>
   (\<forall>L. 1 \<le> L \<and> L \<le> int n \<longrightarrow> covers out L) \<and> (\<forall>c. out \<noteq> [] \<longrightarrow> StartLine (hd out) = 1)"
proof (induction rest arbitrary: i chunks cur sz start)
  case Nil
  then show ?case by (auto split: list.splits)
next
  case (Cons line rest)
  have n: "n = Suc i + length rest"
    using Cons.prems(2) by simp
  show ?case
  proof (cases "MaxChunkSize cfg \<le> sz + (int (length line) + 1) \<or> int i = int n - 1")
    case True
    let ?m = "min (ChunkOverlap cfg) (int (length cur) + 1)"
    let ?c = "size_chunk fp pp lang (strings_Join newline (cur @ [line])) start (start + int (length cur))"
    let ?cur = "drop (nat (int (length cur) + 1 - ?m)) (cur @ [line])"
    have nm: "\<not> ?m < 0"
      using Cons.prems(1) unfolding loop_emit [OF True] by (auto split: if_splits)
    have run: "chunkBySize_loop cfg fp pp lang n (Suc i) rest (chunks @ [?c]) ?cur (lines_size ?cur)
        (start + int (length cur) - ?m + 1) = Inr out"
      using Cons.prems(1) nm unfolding loop_emit [OF True] by simp
    have lenc: "int (length ?cur) = ?m"
    proof -
      define mm where "mm = nat ?m"
      have m_int: "?m = int mm"
        using nm by (simp add: mm_def)
      have "int mm \<le> int (length cur) + 1"
        unfolding m_int [symmetric] by simp
      then have mm_le: "mm \<le> length cur + 1"
        by linarith
      have "nat (int (length cur) + 1 - int mm) = length cur + 1 - mm"
        by linarith
      then have "length ?cur = mm"
        unfolding m_int using mm_le by simp
      then show ?thesis
        using m_int by simp
    qed
    have len: "start + int (length cur) - ?m + 1 + int (length ?cur) = int (Suc i) + 1"
      unfolding lenc using Cons.prems(3) by simp
    have endl: "start + int (length cur) = int i + 1"
      using Cons.prems(3) .
    have cov: "\<forall>L. 1 \<le> L \<and> L < start + int (length cur) - ?m + 1 \<longrightarrow> covers (chunks @ [?c]) L"
    proof (intro allI impI)
      fix L assume L: "1 \<le> L \<and> L < start + int (length cur) - ?m + 1"
      show "covers (chunks @ [?c]) L"
      proof (cases "L < start")
        case True
        then show ?thesis using Cons.prems(4) L covers_append by blast
      next
        case False
        then show ?thesis
          using L nm by (intro covers_last) (simp_all add: size_chunk_fields)
      qed
    qed
    have fin: "rest = [] \<longrightarrow> (\<forall>L. 1 \<le> L \<and> L \<le> int n \<longrightarrow> covers (chunks @ [?c]) L)"
    proof (intro allI impI)
      fix L assume r: "rest = []" and L: "1 \<le> L \<and> L \<le> int n"
      have "int n = start + int (length cur)"
        using r n endl by simp
      then show "covers (chunks @ [?c]) L"
        using L Cons.prems(4) covers_append
        by (cases "L < start") (auto intro: covers_last simp: size_chunk_fields)
    qed
    have first: "case chunks @ [?c] of [] \<Rightarrow> start + int (length cur) - ?m + 1 = 1 | c # _ \<Rightarrow> StartLine c = 1"
      using Cons.prems(6) by (cases chunks) (simp_all add: size_chunk_fields)
    show ?thesis
      by (rule Cons.IH [OF run n len cov fin first])
  next
    case False
    then have rest_ne: "rest \<noteq> []"
      using Cons.prems(2) by auto
    have run: "chunkBySize_loop cfg fp pp lang n (Suc i) rest chunks (cur @ [line])
        (sz + (int (length line) + 1)) start = Inr out"
      using Cons.prems(1) unfolding loop_skip [OF False] .
    have len: "start + int (length (cur @ [line])) = int (Suc i) + 1"
      using Cons.prems(3) by simp
    have fin: "rest = [] \<longrightarrow> (\<forall>L. 1 \<le> L \<and> L \<le> int n \<longrightarrow> covers chunks L)"
      using rest_ne by simp
    show ?thesis
      by (rule Cons.IH [OF run n len Cons.prems(4) fin Cons.prems(6)])
  qed
qed

lemma chunkBySize_covers:
  assumes "chunkBySize cfg content fp pp lang = Inr chunks"
  shows "chunks \<noteq> [] \<and> StartLine (hd chunks) = 1
     \<and> (\<forall>L. 1 \<le> L \<and> L \<le> int (length (strings_Split newline content)) \<longrightarrow> covers chunks L)"
proof (cases "int (length content) \<le> MaxChunkSize cfg")
  case True
  then show ?thesis
    using assms by (auto simp: chunkBySize_def Let_def covers_def size_chunk_fields)
next
  case False
  let ?lines = "strings_Split newline content"
  have run: "chunkBySize_loop cfg fp pp lang (length ?lines) 0 ?lines [] [] 0 1 = Inr chunks"
    using assms False by (simp add: chunkBySize_def Let_def)
  have ne: "?lines \<noteq> []"
    by (rule strings_Split_nonempty)
  have res: "(\<forall>L. 1 \<le> L \<and> L \<le> int (length ?lines) \<longrightarrow> covers chunks L)
      \<and> (\<forall>c. chunks \<noteq> [] \<longrightarrow> StartLine (hd chunks) = 1)"
    by (rule loop_covers [OF run]) (auto simp: ne)
  have "covers chunks 1"
    using res ne by (cases ?lines) auto
  then have "chunks \<noteq> []"
    by (auto simp: covers_def)
  then show ?thesis
    using res by simp
qed

section \<open>Binary search and the line of an offset\<close>

declare search_loop.simps [simp del]
declare find_all.simps [simp del]

lemma search_loop_threshold:
  "(\<forall>a b. a \<le> b \<and> b < n \<and> f a \<longrightarrow> f b) \<Longrightarrow> i \<le> j \<Longrightarrow> j \<le> n \<Longrightarrow>
   (\<forall>k<i. \<not> f k) \<Longrightarrow> (\<forall>k. j \<le> k \<and> k < n \<longrightarrow> f k) \<Longrightarrow>
   search_loop f i j \<le> n \<and> (\<forall>k<search_loop f i j. \<not> f k)
     \<and> (\<forall>k. search_loop f i j \<le> k \<and> k < n \<longrightarrow> f k)"
proof (induction f i j rule: search_loop.induct)
  case (1 f i j)
  show ?case
  proof (cases "i < j")
    case False
    then have r: "search_loop f i j = i"
      by (subst search_loop.simps) simp
    have "i = j"
      using False "1.prems"(2) by simp
    then show ?thesis
      unfolding r using "1.prems" by simp
  next
    case True
    let ?h = "(i + j) div 2"
    have h: "i \<le> ?h" "?h < j" "?h < n"
      using True "1.prems"(3) by auto
    show ?thesis
    proof (cases "f ?h")
      case False
      have eq: "search_loop f i j = search_loop f (?h + 1) j"
        using True False by (simp add: search_loop.simps [of f i j])
      have below: "\<forall>k<?h + 1. \<not> f k"
      proof (intro allI impI)
        fix k assume "k < ?h + 1"
        then have "k \<le> ?h" by simp
        then show "\<not> f k"
          using "1.prems"(1) h(3) False by blast
      qed
      show ?thesis
        unfolding eq
        using "1.IH"(1) [OF True refl False "1.prems"(1) _ "1.prems"(3) below "1.prems"(5)] h
        by simp
    next
      case fh: True
      have eq: "search_loop f i j = search_loop f i ?h"
        using True fh by (simp add: search_loop.simps [of f i j])
      have above: "\<forall>k. ?h \<le> k \<and> k < n \<longrightarrow> f k"
        using "1.prems"(1) fh by blast
      have nfh: "\<not> \<not> f ?h"
        using fh by simp
      show ?thesis
        unfolding eq
        using "1.IH"(2) [OF True refl nfh "1.prems"(1) h(1) _ "1.prems"(4) above] h
        by simp
    qed
  qed
qed

lemma sort_Search_threshold:
  assumes "\<forall>a b. a \<le> b \<and> b < n \<and> f a \<longrightarrow> f b"
  shows "sort_Search n f \<le> n \<and> (\<forall>k<sort_Search n f. \<not> f k)
     \<and> (\<forall>k. sort_Search n f \<le> k \<and> k < n \<longrightarrow> f k)"
  unfolding sort_Search_def
  by (rule search_loop_threshold [OF assms]) auto

lemma sorted_above_mono:
  assumes "sorted (lp :: int list)"
  shows "\<forall>a b. a \<le> b \<and> b < length lp \<and> p < lp ! a \<longrightarrow> p < lp ! b"
proof (intro allI impI)
  fix a b assume h: "a \<le> b \<and> b < length lp \<and> p < lp ! a"
  then have "lp ! a \<le> lp ! b"
    using assms by (simp add: sorted_nth_mono)
  then show "p < lp ! b" using h by simp
qed

lemma sort_Search_mono:
  assumes srt: "sorted (lp :: int list)" and pq: "p \<le> q"
  shows "sort_Search (length lp) (\<lambda>i. lp ! i > p) \<le> sort_Search (length lp) (\<lambda>i. lp ! i > q)"
proof (rule ccontr)
  let ?rp = "sort_Search (length lp) (\<lambda>i. lp ! i > p)"
  let ?rq = "sort_Search (length lp) (\<lambda>i. lp ! i > q)"
  assume "\<not> ?rp \<le> ?rq"
  then have lt: "?rq < ?rp" by simp
  note thp = sort_Search_threshold [OF sorted_above_mono [OF srt, of p] ]
  note thq = sort_Search_threshold [OF sorted_above_mono [OF srt, of q] ]
  have tp1: "?rp \<le> length lp"
    by (rule thp [THEN conjunct1])
  have tp2: "\<forall>k<?rp. \<not> p < lp ! k"
    by (rule thp [THEN conjunct2, THEN conjunct1])
  have tq: "\<forall>k. ?rq \<le> k \<and> k < length lp \<longrightarrow> q < lp ! k"
    by (rule thq [THEN conjunct2, THEN conjunct2])
  have "?rq < length lp"
    using lt tp1 by linarith
  then have "q < lp ! ?rq"
    using tq by blast
  moreover have "\<not> p < lp ! ?rq"
    using tp2 lt by blast
  ultimately show False
    using pq by linarith
qed

lemma line_index_mono:
  assumes "sorted lp" and "p \<le> q"
  shows "line_index lp p \<le> line_index lp q"
proof -
  have "sort_Search (length lp) (\<lambda>i. lp ! i > p) \<le> sort_Search (length lp) (\<lambda>i. lp ! i > q)"
    by (rule sort_Search_mono [OF assms])
  then show ?thesis
    unfolding line_index_def Let_def by (simp only: split: if_splits) linarith
qed

lemma line_index_nonneg: "0 \<le> line_index lp p"
  by (simp add: line_index_def Let_def)

lemma line_positions_ge: "x \<in> set (line_positions pos ls) \<Longrightarrow> pos \<le> x"
proof (induction ls arbitrary: pos)
  case Nil
  then show ?case by simp
next
  case (Cons l ls)
  then show ?case by fastforce
qed

lemma sorted_line_positions: "sorted (line_positions pos ls)"
proof (induction ls arbitrary: pos)
  case Nil
  show ?case by simp
next
  case (Cons l ls)
  have "\<forall>x\<in>set (line_positions (pos + int (length l) + 1) ls). pos \<le> x"
    using line_positions_ge by fastforce
  then show ?case using Cons by simp
qed

lemma length_line_positions: "length (line_positions pos ls) = length ls + 1"
  by (induction ls arbitrary: pos) auto

lemma line_positions_nth:
  "k \<le> length ls \<Longrightarrow> line_positions pos ls ! k = pos + lines_size (take k ls)"
proof (induction ls arbitrary: pos k)
  case Nil
  then show ?case by (simp add: lines_size_def)
next
  case (Cons l ls)
  show ?case
  proof (cases k)
    case 0
    then show ?thesis by (simp add: lines_size_def)
  next
    case (Suc k')
    then have "k' \<le> length ls" using Cons.prems by simp
    then show ?thesis
      using Cons.IH [of k' "pos + int (length l) + 1"] Suc by (simp add: lines_size_def)
  qed
qed

lemma lines_size_Split: "lines_size (strings_Split sep s) = int (length s) + 1"
proof (induction s)
  case Nil
  show ?case by (simp add: lines_size_def)
next
  case (Cons c cs)
  obtain l ls where eq: "strings_Split sep cs = l # ls"
    using strings_Split_nonempty [of sep cs] by (cases "strings_Split sep cs") auto
  show ?case
    using Cons eq by (simp add: lines_size_def)
qed

lemma lines_size_pos: "ls \<noteq> [] \<Longrightarrow> 1 \<le> lines_size ls"
proof (induction ls)
  case Nil
  then show ?case by simp
next
  case (Cons l ls)
  have "0 \<le> lines_size ls"
    unfolding lines_size_def by (rule sum_list_nonneg) auto
  then show ?case by (simp add: lines_size_def)
qed

lemma lines_size_take:
  assumes "k < length ls"
  shows "lines_size (take k ls) \<le> lines_size ls - 1"
proof -
  have "lines_size ls = lines_size (take k ls) + lines_size (drop k ls)"
  proof -
    have "lines_size (take k ls @ drop k ls) = lines_size (take k ls) + lines_size (drop k ls)"
      unfolding lines_size_def by (simp only: map_append sum_list_append)
    then show ?thesis by simp
  qed
  moreover have "1 \<le> lines_size (drop k ls)"
    using assms by (intro lines_size_pos) simp
  ultimately show ?thesis by simp
qed

lemma line_index_end:
  "line_index (line_positions 0 (strings_Split newline content)) (int (length content))
     = int (length (strings_Split newline content)) - 1"
proof -
  let ?lines = "strings_Split newline content"
  let ?lp = "line_positions 0 ?lines"
  let ?f = "\<lambda>i. ?lp ! i > int (length content)"
  let ?r = "sort_Search (length ?lp) ?f"
  have n: "length ?lp = length ?lines + 1"
    by (rule length_line_positions)
  note th = sort_Search_threshold
    [OF sorted_above_mono [OF sorted_line_positions [of 0 ?lines], of "int (length content)"] ]
  have th2: "\<forall>k<?r. \<not> ?f k"
    by (rule th [THEN conjunct2, THEN conjunct1])
  have th3: "\<forall>k. ?r \<le> k \<and> k < length ?lp \<longrightarrow> ?f k"
    by (rule th [THEN conjunct2, THEN conjunct2])
  have top: "?f (length ?lines)"
    by (simp add: line_positions_nth lines_size_Split)
  have low: "\<not> ?f k" if "k < length ?lines" for k
    using lines_size_take [OF that] that by (simp add: line_positions_nth lines_size_Split)
  have "?r \<le> length ?lines"
  proof (rule ccontr)
    assume "\<not> ?r \<le> length ?lines"
    then have "length ?lines < ?r" by linarith
    then have "\<not> ?f (length ?lines)" using th2 by blast
    then show False using top by blast
  qed
  moreover have "length ?lines \<le> ?r"
  proof (rule ccontr)
    assume "\<not> length ?lines \<le> ?r"
    then have lt: "?r < length ?lines" by linarith
    then have "?r < length ?lp" using n by linarith
    then have "?f ?r" using th3 by blast
    then show False using low [OF lt] by blast
  qed
  ultimately have "?r = length ?lines" by linarith
  then show ?thesis
    using strings_Split_nonempty [of newline content]
    by (cases ?lines) (simp_all add: line_index_def Let_def)
qed

section \<open>Offsets of the matches\<close>

lemma rx_iter_span:
  assumes step: "\<And>a b. b \<in> set (step a) \<Longrightarrow> fst b + length (fst (snd b)) = fst a + length (fst (snd a))"
  shows "st' \<in> set (rx_iter step greedy fuel st) \<Longrightarrow>
     fst st' + length (fst (snd st')) = fst st + length (fst (snd st))"
proof (induction fuel arbitrary: st)
  case 0
  then show ?case by simp
next
  case (Suc fuel)
  from Suc.prems have "st' = st \<or> (\<exists>mid\<in>set (step st). st' \<in> set (rx_iter step greedy fuel mid))"
    by (auto simp: Let_def split: if_splits)
  then show ?case
  proof
    assume "st' = st"
    then show ?thesis by simp
  next
    assume "\<exists>mid\<in>set (step st). st' \<in> set (rx_iter step greedy fuel mid)"
    then obtain mid where mid: "mid \<in> set (step st)" "st' \<in> set (rx_iter step greedy fuel mid)"
      by blast
    show ?thesis
      using Suc.IH [OF mid(2)] step [OF mid(1)] by simp
  qed
qed

lemma rx_run_span:
  "st' \<in> set (rx_run r st) \<Longrightarrow> fst st' + length (fst (snd st')) = fst st + length (fst (snd st))"
proof (induction r arbitrary: st st')
  case Eps
  then show ?case by simp
next
  case (Lit c)
  obtain p rest caps where st: "st = (p, rest, caps)"
    by (cases st) auto
  show ?case
    using Lit unfolding st by (cases rest) (auto split: if_splits)
next
  case (Cls k)
  obtain p rest caps where st: "st = (p, rest, caps)"
    by (cases st) auto
  show ?case
    using Cls unfolding st by (cases rest) (auto split: if_splits)
next
  case (Seq a b)
  from Seq.prems obtain mid where "mid \<in> set (rx_run a st)" "st' \<in> set (rx_run b mid)"
    by auto
  then show ?case
    using Seq.IH(1) [of mid st] Seq.IH(2) [of st' mid] by simp
next
  case (Star a)
  show ?case
    using Star.prems rx_iter_span [of "rx_run a" st' True _ st] Star.IH by simp
next
  case (LazyStar a)
  show ?case
    using LazyStar.prems rx_iter_span [of "rx_run a" st' False _ st] LazyStar.IH by simp
next
  case (Plus a)
  from Plus.prems obtain mid where mid: "mid \<in> set (rx_run a st)"
      "st' \<in> set (rx_iter (rx_run a) True (length (fst (snd mid))) mid)"
    by auto
  show ?case
    using rx_iter_span [of "rx_run a" st' True _ mid, OF Plus.IH mid(2)] Plus.IH [OF mid(1)] by simp
next
  case (Opt a)
  from Opt.prems have "st' \<in> set (rx_run a st) \<or> st' = st"
    by auto
  then show ?case
    using Opt.IH [of st' st] by blast
next
  case (Group g a)
  from Group.prems obtain mid where "mid \<in> set (rx_run a st)"
      "st' = (fst mid, fst (snd mid), (g, fst st, fst mid) # snd (snd mid))"
    by auto
  then show ?case
    using Group.IH [of mid st] by simp
qed

lemma length_submatch_index: "length (submatch_index b e caps) = 6"
  by (simp add: submatch_index_def group_index_def split: option.splits)

lemma find_all_starts:
  "m \<in> set (find_all r pos s) \<Longrightarrow>
   length m = 6 \<and> int pos \<le> m ! 0 \<and> m ! 0 \<le> int (pos + length s)"
proof (induction r pos s rule: find_all.induct)
  case (1 r pos s)
  show ?case
  proof (cases "rx_run r (pos, s, [])")
    case Nil
    then have rec: "s \<noteq> []" "m \<in> set (find_all r (Suc pos) (tl s))"
      using "1.prems" by (auto simp: find_all.simps [of r pos s] split: if_splits)
    show ?thesis
      using "1.IH"(1) [OF Nil rec(1) rec(2)] rec(1) by (cases s) auto
  next
    case (Cons st sts)
    have hd_case: "length (submatch_index pos (fst st) (snd (snd st))) = 6
        \<and> int pos \<le> submatch_index pos (fst st) (snd (snd st)) ! 0
        \<and> submatch_index pos (fst st) (snd (snd st)) ! 0 \<le> int (pos + length s)"
      by (simp add: length_submatch_index) (simp add: submatch_index_def)
    have span: "fst st + length (fst (snd st)) = pos + length s"
      using rx_run_span [of st r "(pos, s, [])"] Cons by simp
    from "1.prems" Cons consider
        (here) "m = submatch_index pos (fst st) (snd (snd st))"
      | (jump) "s \<noteq> []" "pos < fst st" "m \<in> set (find_all r (fst st) (drop (fst st - pos) s))"
      | (next1) "s \<noteq> []" "\<not> pos < fst st" "m \<in> set (find_all r (Suc pos) (tl s))"
      by (auto simp: find_all.simps [of r pos s] split: if_splits)
    then show ?thesis
    proof cases
      case here
      then show ?thesis using hd_case by simp
    next
      case jump
      have "fst st + length (drop (fst st - pos) s) = pos + length s"
        using span jump(2) by simp
      then show ?thesis
        using "1.IH"(2) [OF Cons jump(1) jump(2) jump(3)] jump(2) by simp
    next
      case next1
      show ?thesis
        using "1.IH"(3) [OF Cons next1(1) next1(2) next1(3)] next1(1) by (cases s) auto
    qed
  qed
qed

lemma collect_matches_starts:
  assumes "m \<in> set (collect_matches content isMethod (FindAllStringSubmatchIndex r content))"
  shows "0 \<le> m_start m \<and> m_start m \<le> int (length content)"
proof -
  from assms obtain x where x: "x \<in> set (find_all r 0 content)" "m_start m = x ! 0"
    by (auto simp: collect_matches_def FindAllStringSubmatchIndex_def)
  show ?thesis
    using find_all_starts [OF x(1)] x(2) by simp
qed

section \<open>Line ranges of the Go chunks\<close>

lemma go_chunks_line_ranges:
  "sorted lp \<Longrightarrow> sorted (map m_start ms) \<Longrightarrow> \<forall>m\<in>set ms. m_start m \<le> int (length content) \<Longrightarrow>
   \<forall>c\<in>set (go_chunks content fp pp lp ms). line_range_ok c"
proof (induction ms)
  case Nil
  show ?case by simp
next
  case (Cons m ms)
  let ?endPos = "case ms of [] \<Rightarrow> int (length content) | m' # _ \<Rightarrow> m_start m'"
  have "m_start m \<le> ?endPos"
    using Cons.prems(2,3) by (cases ms) auto
  then have "line_index lp (m_start m) \<le> line_index lp ?endPos"
    by (rule line_index_mono [OF Cons.prems(1)])
  then have "line_range_ok (hd (go_chunks content fp pp lp (m # ms)))"
    using line_index_nonneg [of lp "m_start m"]
    by (simp add: Let_def line_range_ok_def zero_chunk_def)
  moreover have "\<forall>c\<in>set (go_chunks content fp pp lp ms). line_range_ok c"
    using Cons by simp
  ultimately show ?case
    by (simp add: Let_def)
qed

lemma go_chunks_start:
  "StartLine (hd (go_chunks content fp pp lp (m # ms))) = line_index lp (m_start m) + 1"
  by (simp add: Let_def zero_chunk_def)

lemma go_chunks_covers:
  "ms \<noteq> [] \<Longrightarrow> line_index lp (m_start (hd ms)) + 1 \<le> L \<Longrightarrow>
   L \<le> line_index lp (int (length content)) + 1 \<Longrightarrow>
   covers (go_chunks content fp pp lp ms) L"
proof (induction ms)
  case Nil
  then show ?case by simp
next
  case (Cons m ms)
  let ?endPos = "case ms of [] \<Rightarrow> int (length content) | m' # _ \<Rightarrow> m_start m'"
  let ?c = "hd (go_chunks content fp pp lp (m # ms))"
  have c: "StartLine ?c = line_index lp (m_start m) + 1" "EndLine ?c = line_index lp ?endPos + 1"
    by (simp_all add: Let_def zero_chunk_def)
  have split: "go_chunks content fp pp lp (m # ms) = ?c # go_chunks content fp pp lp ms"
    by (simp add: Let_def)
  show ?case
  proof (cases "L \<le> line_index lp ?endPos + 1")
    case True
    then have "StartLine ?c \<le> L \<and> L \<le> EndLine ?c"
      using Cons.prems(2) c by simp
    then show ?thesis
      unfolding covers_def by (subst split) (simp only: list.set, blast)
  next
    case False
    then obtain m' ms' where ms: "ms = m' # ms'"
      using Cons.prems(3) by (cases ms) auto
    have "covers (go_chunks content fp pp lp ms) L"
      using Cons.IH False Cons.prems(3) ms by simp
    then show ?thesis
      unfolding covers_def by (subst split) (simp only: list.set, blast)
  qed
qed

lemma length_go_chunks: "length (go_chunks content fp pp lp ms) = length ms"
  by (induction ms) (simp_all add: Let_def)

lemma go_chunks_entity:
  "c \<in> set (go_chunks content fp pp lp ms) \<Longrightarrow> EntityType c = ''function'' \<or> EntityType c = ''method''"
  by (induction ms) (auto simp: Let_def zero_chunk_def)

section \<open>\<open>chunkGoCode\<close> and \<open>chunkFile\<close>\<close>

lemma chunkGoCode_line_ranges: "\<forall>c\<in>set (chunkGoCode content fp pp). line_range_ok c"
proof -
  let ?ms = "collect_matches content False (FindAllStringSubmatchIndex funcPattern content)
      @ collect_matches content True (FindAllStringSubmatchIndex methodPattern content)"
  have bound: "\<forall>m\<in>set (sort_key m_start ?ms). m_start m \<le> int (length content)"
    using collect_matches_starts by auto
  have "\<forall>c\<in>set (go_chunks content fp pp (line_positions 0 (strings_Split newline content))
      (sort_key m_start ?ms)). line_range_ok c"
    by (rule go_chunks_line_ranges [OF sorted_line_positions sorted_sort_key bound])
  then show ?thesis
    by (simp add: chunkGoCode_def Let_def)
qed

lemma chunkGoCode_covers:
  assumes ne: "chunkGoCode content fp pp \<noteq> []"
    and lo: "StartLine (hd (chunkGoCode content fp pp)) \<le> L"
    and hi: "L \<le> int (length (strings_Split newline content))"
  shows "covers (chunkGoCode content fp pp) L"
proof -
  let ?ms = "sort_key m_start
     (collect_matches content False (FindAllStringSubmatchIndex funcPattern content)
      @ collect_matches content True (FindAllStringSubmatchIndex methodPattern content))"
  let ?lp = "line_positions 0 (strings_Split newline content)"
  have eq: "chunkGoCode content fp pp = go_chunks content fp pp ?lp ?ms"
    by (simp add: chunkGoCode_def Let_def)
  obtain m ms where ms: "?ms = m # ms"
    using ne unfolding eq by (cases ?ms) auto
  have lo': "line_index ?lp (m_start (hd ?ms)) + 1 \<le> L"
    using lo unfolding eq ms by (simp only: go_chunks_start list.sel)
  have hi': "L \<le> line_index ?lp (int (length content)) + 1"
    using hi by (simp add: line_index_end)
  have "?ms \<noteq> []" using ms by simp
  then show ?thesis
    unfolding eq by (rule go_chunks_covers [OF _ lo' hi'])
qed

lemma chunkGoCode_entity:
  "c \<in> set (chunkGoCode content fp pp) \<Longrightarrow> EntityType c = ''function'' \<or> EntityType c = ''method''"
  unfolding chunkGoCode_def Let_def by (rule go_chunks_entity)

lemma assign_id_hash_fields:
  "StartLine (assign_id_hash h fp c) = StartLine c"
  "EndLine (assign_id_hash h fp c) = EndLine c"
  "EntityType (assign_id_hash h fp c) = EntityType c"
  "Content (assign_id_hash h fp c) = Content c"
  "Name (assign_id_hash h fp c) = Name c"
  "Signature (assign_id_hash h fp c) = Signature c"
  by (simp_all add: assign_id_hash_def)

lemma covers_assign: "covers (map (assign_id_hash h fp) cs) L = covers cs L"
  by (simp add: covers_def assign_id_hash_fields)

lemma chunkFile_cases:
  assumes "chunkFile md5hex cfg content fp pp lang = Inr chunks"
  obtains (go) "chunks = map (assign_id_hash md5hex fp) (chunkGoCode content fp pp)"
      "2 \<le> length (chunkGoCode content fp pp)"
  | (size) cs where "chunkBySize cfg content fp pp lang = Inr cs"
      "chunks = map (assign_id_hash md5hex fp) cs"
  using assms by (auto simp: chunkFile_def Let_def split: if_splits sum.splits)

lemma chunkBySize_total:
  assumes "0 \<le> ChunkOverlap cfg"
  shows "\<exists>cs. chunkBySize cfg content fp pp lang = Inr cs"
  using loop_total [OF assms] by (simp add: chunkBySize_def Let_def)

lemma chunkFile_total:
  assumes "0 \<le> ChunkOverlap cfg"
  shows "\<exists>chunks. chunkFile md5hex cfg content fp pp lang = Inr chunks"
proof -
  obtain cs where "chunkBySize cfg content fp pp lang = Inr cs"
    using chunkBySize_total [OF assms] by blast
  then show ?thesis
    by (simp add: chunkFile_def Let_def)
qed

lemma chunkBySize_entity:
  assumes "chunkBySize cfg content fp pp lang = Inr cs" and "cs \<noteq> []"
  shows "StartLine (hd cs) = 1"
  using chunkBySize_covers [OF assms(1)] by simp

section \<open>The two chunkers on the sample inputs\<close>

lemmas regex_eval = FindAllStringSubmatchIndex_def find_all.simps submatch_index_def group_index_def

lemmas go_eval = collect_matches_def substr_def line_index_def sort_Search_def
  search_loop.simps Let_def zero_chunk_def newline_def

lemma hello_go_funcMatches:
  "FindAllStringSubmatchIndex funcPattern hello_go = [ [0, 32, 5, 10, 11, 22] ]"
  by (simp add: regex_eval funcPattern_def hello_go_def)

lemma hello_go_methodMatches:
  "FindAllStringSubmatchIndex methodPattern hello_go = []"
  by (simp add: regex_eval methodPattern_def hello_go_def)

text \<open>
  The Go chunker does find the function of the scenario, with the name and the
  signature the scenario expects.
\<close>

lemma chunkGoCode_hello_go:
  "chunkGoCode hello_go fp pp =
     [zero_chunk\<lparr>FilePath := fp, ProjectPath := pp, Content := hello_go, StartLine := 1, EndLine := 1,
        EntityType := ''function'', Name := ''Hello'', Signature := ''name string'',
        Language := ''Go''\<rparr>]"
  unfolding chunkGoCode_def hello_go_funcMatches hello_go_methodMatches
  by (simp add: go_eval hello_go_def)

lemma sample_go_funcMatches:
  "FindAllStringSubmatchIndex funcPattern sample_go = [ [10, 20, 15, 16, 17, 17] ]"
  by (simp add: regex_eval funcPattern_def sample_go_def newline_def)

lemma sample_go_methodMatches:
  "FindAllStringSubmatchIndex methodPattern sample_go = [ [23, 51, 35, 36, 37, 42] ]"
  by (simp add: regex_eval methodPattern_def sample_go_def newline_def)

lemma chunkGoCode_sample_go:
  "chunkGoCode sample_go fp pp =
     [zero_chunk\<lparr>FilePath := fp, ProjectPath := pp,
        Content := strings_Join newline [''func A() {'', ''}'', [] ],
        StartLine := 2, EndLine := 4,
        EntityType := ''function'', Name := ''A'', Signature := [], Language := ''Go''\<rparr>,
      zero_chunk\<lparr>FilePath := fp, ProjectPath := pp,
        Content := strings_Join newline [''func (t *T) B(x int) error {'', ''}''],
        StartLine := 4, EndLine := 5,
        EntityType := ''method'', Name := ''B'', Signature := ''x int'', Language := ''Go''\<rparr>]"
  unfolding chunkGoCode_def sample_go_funcMatches sample_go_methodMatches
  by (simp add: go_eval sample_go_def)

lemma chunkFile_sample_go:
  "chunkFile md5hex cfg sample_go fp pp ''Go'' =
     Inr (map (assign_id_hash md5hex fp) (chunkGoCode sample_go fp pp))"
  by (simp add: chunkFile_def chunkGoCode_sample_go)

lemma lines_sample_go: "length (strings_Split newline sample_go) = 5"
  by (simp add: sample_go_def newline_def)

section \<open>The claims about the chunkers\<close>

text \<open>
  C1, as the code behaves. For the file that holds exactly
  \<open>func Hello(name string) string { return "hi" }\<close>, under the default configuration,
  \<open>chunkFile\<close> returns exactly one chunk, and it is the chunk of the size-based fallback:
  entity type \<open>chunk\<close>, name \<open>chunk_1_1\<close>, empty signature, lines 1 to 1, the whole file
  as content. The Go chunker finds one function, which is fewer than two, so its result
  is replaced.
\<close>

theorem chunkFile_hello_go_is_size_chunk:
  "chunkFile md5hex DefaultConfig hello_go ''a.go'' projectPath ''Go'' =
     Inr [\<lparr>ID = md5hex ''a.go:1:1'', Content = hello_go, FilePath = ''a.go'',
            ProjectPath = projectPath, Language = ''Go'', StartLine = 1, EndLine = 1,
            EntityType = ''chunk'', Name = ''chunk_1_1'', Signature = [],
            Embedding = [], Hash = md5hex hello_go, Score = 0\<rparr>]"
proof -
  have len: "length hello_go = 46"
    by (simp add: hello_go_def)
  have lines: "strings_Split newline hello_go = [hello_go]"
    by (rule strings_Split_no_sep_single) (simp add: hello_go_def newline_def)
  have one: "show_int 1 = ''1''"
    by code_simp
  show ?thesis
    by (simp add: chunkFile_def chunkGoCode_hello_go chunkBySize_def DefaultConfig_def len lines
        size_chunk_def zero_chunk_def assign_id_hash_def one)
qed

text \<open>
  C1 as stated fails: whatever the hash function and the project path, the result for
  that file is not a single chunk with entity type \<open>function\<close>, name \<open>Hello\<close> and
  signature \<open>name string\<close>.
\<close>

theorem chunkFile_hello_go_not_function:
  "\<not> (\<exists>md5hex projectPath c.
        chunkFile md5hex DefaultConfig hello_go ''a.go'' projectPath ''Go'' = Inr [c]
        \<and> EntityType c = ''function'' \<and> Name c = ''Hello'' \<and> Signature c = ''name string''
        \<and> StartLine c = 1 \<and> EndLine c = 1)"
proof -
  have len: "length hello_go = 46"
    by (simp add: hello_go_def)
  have "EntityType c = ''chunk''"
    if "chunkFile md5hex DefaultConfig hello_go ''a.go'' projectPath ''Go'' = Inr [c]"
    for md5hex projectPath c
    using that
    by (auto simp: chunkFile_def chunkGoCode_hello_go chunkBySize_def DefaultConfig_def len
        Let_def size_chunk_def zero_chunk_def assign_id_hash_def)
  then show ?thesis by fastforce
qed

text \<open>
  C9. For every input text, language and configuration, every chunk that \<open>chunkFile\<close>
  returns satisfies \<open>1 \<le> start_line \<le> end_line\<close>; and \<open>chunkFile\<close> does return
  when \<open>ChunkOverlap\<close> is not negative (with a negative overlap the size-based chunker
  panics on its slice expression and no chunk is produced).
\<close>

theorem chunkFile_line_ranges:
  "(0 \<le> ChunkOverlap cfg \<longrightarrow> (\<exists>chunks. chunkFile md5hex cfg content filePath projectPath language = Inr chunks))
   \<and> (\<forall>chunks. chunkFile md5hex cfg content filePath projectPath language = Inr chunks \<longrightarrow>
         (\<forall>c\<in>set chunks. 1 \<le> StartLine c \<and> StartLine c \<le> EndLine c))"
proof (intro conjI impI allI)
  assume "0 \<le> ChunkOverlap cfg"
  then show "\<exists>chunks. chunkFile md5hex cfg content filePath projectPath language = Inr chunks"
    by (rule chunkFile_total)
next
  fix chunks
  assume run: "chunkFile md5hex cfg content filePath projectPath language = Inr chunks"
  from run show "\<forall>c\<in>set chunks. 1 \<le> StartLine c \<and> StartLine c \<le> EndLine c"
  proof (cases rule: chunkFile_cases)
    case go
    then show ?thesis
      using chunkGoCode_line_ranges [of content filePath projectPath]
      by (auto simp: line_range_ok_def assign_id_hash_fields)
  next
    case (size cs)
    then show ?thesis
      using chunkBySize_line_ranges [OF size(1)]
      by (auto simp: line_range_ok_def assign_id_hash_fields)
  qed
qed

theorem chunkFile_line_ranges_witness:
  "0 \<le> ChunkOverlap DefaultConfig
   \<and> map (\<lambda>c. (StartLine c, EndLine c)) (projr (chunkFile (\<lambda>s. s) DefaultConfig sample_go ''a.go'' ''.'' ''Go''))
       = [(2, 4), (4, 5)]
   \<and> (\<exists>chunks. chunkFile (\<lambda>s. s) DefaultConfig sample_go ''a.go'' ''.'' ''Go'' = Inr chunks
        \<and> list_all (\<lambda>c. 1 \<le> StartLine c \<and> StartLine c \<le> EndLine c) chunks)"
proof -
  have h: "0 \<le> ChunkOverlap DefaultConfig"
    by (simp add: DefaultConfig_def)
  have ev: "map (\<lambda>c. (StartLine c, EndLine c))
      (projr (chunkFile (\<lambda>s. s) DefaultConfig sample_go ''a.go'' ''.'' ''Go'')) = [(2, 4), (4, 5)]"
    by (simp add: chunkFile_sample_go chunkGoCode_sample_go assign_id_hash_fields zero_chunk_def)
  show ?thesis
    unfolding list_all_iff
    using h ev chunkFile_line_ranges [of DefaultConfig "\<lambda>s. s" sample_go "''a.go''" "''.''" "''Go''"]
    by blast
qed

text \<open>
  C8 as stated fails on the Go path: in the five-line sample the first function starts
  on line 2, and line 1 (the package clause) lies in no chunk.
\<close>

theorem chunkFile_sample_go_line_1_uncovered:
  "\<not> (\<exists>md5hex chunks. chunkFile md5hex DefaultConfig sample_go ''a.go'' ''.'' ''Go'' = Inr chunks
        \<and> (\<forall>L. 1 \<le> L \<and> L \<le> int (length (strings_Split newline sample_go)) \<longrightarrow> covers chunks L))"
proof
  assume "\<exists>md5hex chunks. chunkFile md5hex DefaultConfig sample_go ''a.go'' ''.'' ''Go'' = Inr chunks
        \<and> (\<forall>L. 1 \<le> L \<and> L \<le> int (length (strings_Split newline sample_go)) \<longrightarrow> covers chunks L)"
  then obtain md5hex chunks where
    run: "chunkFile md5hex DefaultConfig sample_go ''a.go'' ''.'' ''Go'' = Inr chunks"
    and cov: "\<forall>L. 1 \<le> L \<and> L \<le> int (length (strings_Split newline sample_go)) \<longrightarrow> covers chunks L"
    by blast
  have "covers chunks 1"
    using cov by (simp add: lines_sample_go)
  moreover have "chunks = map (assign_id_hash md5hex ''a.go'') (chunkGoCode sample_go ''a.go'' ''.'')"
    using run by (simp add: chunkFile_sample_go)
  ultimately have "covers (chunkGoCode sample_go ''a.go'' ''.'') 1"
    by (simp only: covers_assign)
  then show False
    by (simp add: chunkGoCode_sample_go covers_def zero_chunk_def)
qed

text \<open>
  C8, as the code behaves. The chunks \<open>chunkFile\<close> returns are never empty and cover
  every line from the start line of the first chunk through the last line of the file.
  When the chunks come from the size-based chunker (entity type \<open>chunk\<close>) the first chunk
  starts at line 1, so the whole file is covered; the Go chunker's first chunk starts at
  the line of the first match, and nothing is said about the lines before it.
  \<open>chunkFile\<close> returns when \<open>ChunkOverlap\<close> is not negative.
\<close>

theorem chunkFile_covers_from_first_chunk:
  "(0 \<le> ChunkOverlap cfg \<longrightarrow> (\<exists>chunks. chunkFile md5hex cfg content filePath projectPath language = Inr chunks))
   \<and> (\<forall>chunks. chunkFile md5hex cfg content filePath projectPath language = Inr chunks \<longrightarrow>
         chunks \<noteq> []
         \<and> (\<forall>L. StartLine (hd chunks) \<le> L \<and> L \<le> int (length (strings_Split newline content)) \<longrightarrow>
               (\<exists>c\<in>set chunks. StartLine c \<le> L \<and> L \<le> EndLine c))
         \<and> (EntityType (hd chunks) = ''chunk'' \<longrightarrow> StartLine (hd chunks) = 1))"
proof (intro conjI impI allI)
  assume "0 \<le> ChunkOverlap cfg"
  then show "\<exists>chunks. chunkFile md5hex cfg content filePath projectPath language = Inr chunks"
    by (rule chunkFile_total)
next
  fix chunks
  assume run: "chunkFile md5hex cfg content filePath projectPath language = Inr chunks"
  from run show "chunks \<noteq> []"
  proof (cases rule: chunkFile_cases)
    case go
    then show ?thesis by auto
  next
    case (size cs)
    then show ?thesis using chunkBySize_covers [OF size(1)] by simp
  qed
next
  fix chunks L
  assume run: "chunkFile md5hex cfg content filePath projectPath language = Inr chunks"
    and L: "StartLine (hd chunks) \<le> L \<and> L \<le> int (length (strings_Split newline content))"
  from run have "covers chunks L"
  proof (cases rule: chunkFile_cases)
    case go
    let ?g = "chunkGoCode content filePath projectPath"
    have ne: "?g \<noteq> []" using go(2) by auto
    then have "StartLine (hd chunks) = StartLine (hd ?g)"
      unfolding go(1) by (simp add: hd_map assign_id_hash_fields)
    then have "covers ?g L"
      using chunkGoCode_covers [OF ne] L by simp
    then show ?thesis
      unfolding go(1) by (simp add: covers_assign)
  next
    case (size cs)
    have cs: "cs \<noteq> []" "StartLine (hd cs) = 1"
      using chunkBySize_covers [OF size(1)] by simp_all
    then have "StartLine (hd chunks) = 1"
      unfolding size(2) by (simp add: hd_map assign_id_hash_fields)
    then have "covers cs L"
      using chunkBySize_covers [OF size(1)] L by simp
    then show ?thesis
      unfolding size(2) by (simp add: covers_assign)
  qed
  then show "\<exists>c\<in>set chunks. StartLine c \<le> L \<and> L \<le> EndLine c"
    by (simp add: covers_def)
next
  fix chunks
  assume run: "chunkFile md5hex cfg content filePath projectPath language = Inr chunks"
    and ent: "EntityType (hd chunks) = ''chunk''"
  from run show "StartLine (hd chunks) = 1"
  proof (cases rule: chunkFile_cases)
    case go
    let ?g = "chunkGoCode content filePath projectPath"
    have ne: "?g \<noteq> []" using go(2) by auto
    then have "EntityType (hd chunks) = EntityType (hd ?g)"
      unfolding go(1) by (simp add: hd_map assign_id_hash_fields)
    moreover have "hd ?g \<in> set ?g"
      using ne by simp
    then have "EntityType (hd ?g) = ''function'' \<or> EntityType (hd ?g) = ''method''"
      by (rule chunkGoCode_entity)
    ultimately show ?thesis using ent by auto
  next
    case (size cs)
    have cs: "cs \<noteq> []" "StartLine (hd cs) = 1"
      using chunkBySize_covers [OF size(1)] by simp_all
    then show ?thesis
      unfolding size(2) by (simp add: hd_map assign_id_hash_fields)
  qed
qed

theorem chunkFile_covers_from_first_chunk_witness:
  "0 \<le> ChunkOverlap DefaultConfig
   \<and> map (\<lambda>c. (StartLine c, EndLine c)) (projr (chunkFile (\<lambda>s. s) DefaultConfig sample_go ''a.go'' ''.'' ''Go''))
       = [(2, 4), (4, 5)]
   \<and> length (strings_Split newline sample_go) = 5
   \<and> (\<exists>chunks. chunkFile (\<lambda>s. s) DefaultConfig sample_go ''a.go'' ''.'' ''Go'' = Inr chunks
        \<and> chunks \<noteq> []
        \<and> list_all (\<lambda>L. \<exists>c\<in>set chunks. StartLine c \<le> L \<and> L \<le> EndLine c) [2, 3, 4, 5])"
proof -
  have h: "0 \<le> ChunkOverlap DefaultConfig"
    by (simp add: DefaultConfig_def)
  have ev: "map (\<lambda>c. (StartLine c, EndLine c))
      (projr (chunkFile (\<lambda>s. s) DefaultConfig sample_go ''a.go'' ''.'' ''Go'')) = [(2, 4), (4, 5)]"
    by (simp add: chunkFile_sample_go chunkGoCode_sample_go assign_id_hash_fields zero_chunk_def)
  have st: "StartLine (hd (projr (chunkFile (\<lambda>s. s) DefaultConfig sample_go ''a.go'' ''.'' ''Go''))) = 2"
    by (simp add: chunkFile_sample_go chunkGoCode_sample_go assign_id_hash_fields zero_chunk_def)
  obtain chunks where run: "chunkFile (\<lambda>s. s) DefaultConfig sample_go ''a.go'' ''.'' ''Go'' = Inr chunks"
    using chunkFile_covers_from_first_chunk [of DefaultConfig "\<lambda>s. s" sample_go "''a.go''" "''.''" "''Go''"] h
    by blast
  have "chunks \<noteq> [] \<and> (\<forall>L. StartLine (hd chunks) \<le> L \<and> L \<le> int (length (strings_Split newline sample_go)) \<longrightarrow>
               (\<exists>c\<in>set chunks. StartLine c \<le> L \<and> L \<le> EndLine c))"
    using chunkFile_covers_from_first_chunk [of DefaultConfig "\<lambda>s. s" sample_go "''a.go''" "''.''" "''Go''"] run
    by blast
  moreover have "StartLine (hd chunks) = 2"
    using st run by simp
  ultimately have "chunks \<noteq> [] \<and> (\<forall>L. 2 \<le> L \<and> L \<le> 5 \<longrightarrow> (\<exists>c\<in>set chunks. StartLine c \<le> L \<and> L \<le> EndLine c))"
    by (simp add: lines_sample_go)
  then have "chunks \<noteq> [] \<and> list_all (\<lambda>L. \<exists>c\<in>set chunks. StartLine c \<le> L \<and> L \<le> EndLine c) [2, 3, 4, 5]"
    by simp
  then show ?thesis
    using h ev run lines_sample_go by blast
qed

section \<open>Globs against paths\<close>

declare strings_ReplaceAll.simps [simp del]

declare utf8_decode.simps [simp del]

lemmas glob_eval = globToRegex_def regex_special_def backslash_def strings_ReplaceAll.simps Let_def

lemmas utf8_eval = utf8_decode.simps utf8_seq_def is_cont_def second_ok_def

lemma globToRegex_foo: "globToRegex ''foo*.go'' = ''^foo.*'' @ [backslash] @ ''.go$''"
  by (simp add: glob_eval)

lemma globToRegex_api: "globToRegex ''*api*'' = ''^.*api.*$''"
  by (simp add: glob_eval)

lemma parse_foo:
  "parse_store_regex (utf8_decode (globToRegex ''foo*.go''))
     = [LineStart, Literal 102, Literal 111, Literal 111, DotStar, Literal 46, Literal 103,
        Literal 111, LineEnd]"
  by (simp add: globToRegex_foo backslash_def utf8_eval store_regex_token_def)

lemma parse_api:
  "parse_store_regex (utf8_decode (globToRegex ''*api*''))
     = [LineStart, DotStar, Literal 97, Literal 112, Literal 105, DotStar, LineEnd]"
  by (simp add: globToRegex_api utf8_eval store_regex_token_def)

text \<open>An ASCII byte is a character of its own, wherever it stands in the text.\<close>

lemma utf8_decode_Nil: "utf8_decode [] = []"
  by (simp add: utf8_decode.simps)

lemma utf8_decode_ascii_Cons:
  "(of_char a :: nat) < 128 \<Longrightarrow> utf8_decode (a # w) = of_char a # utf8_decode w"
  by (subst utf8_decode.simps) simp

lemma utf8_seq_length:
  "utf8_seq s = Some (cp, n) \<Longrightarrow> 2 \<le> n \<and> n \<le> length s"
  by (auto simp: utf8_seq_def Let_def split: list.splits if_splits)

lemma utf8_seq_append_ascii:
  assumes "(of_char a :: nat) < 128" and "s \<noteq> []"
  shows "utf8_seq (s @ a # w) = utf8_seq s"
  using assms by (auto simp: utf8_seq_def Let_def is_cont_def second_ok_def split: list.splits)

lemma utf8_decode_append_ascii:
  "(of_char a :: nat) < 128 \<Longrightarrow> utf8_decode (u @ a # w) = utf8_decode u @ utf8_decode (a # w)"
proof (induction u rule: utf8_decode.induct)
  case (1 s)
  show ?case
  proof (cases s)
    case Nil
    then show ?thesis by (simp add: utf8_decode_Nil)
  next
    case (Cons b bs)
    show ?thesis
    proof (cases "(of_char b :: nat) < 128")
      case True
      have "utf8_decode (s @ a # w) = of_char b # utf8_decode (bs @ a # w)"
        unfolding Cons using True by (simp add: utf8_decode_ascii_Cons)
      also have "utf8_decode (bs @ a # w) = utf8_decode bs @ utf8_decode (a # w)"
        using "1.IH"(1) [OF Cons True] "1.prems" .
      finally show ?thesis
        unfolding Cons using True by (simp add: utf8_decode_ascii_Cons)
    next
      case False
      have seq: "utf8_seq (s @ a # w) = utf8_seq s"
        using "1.prems" Cons by (intro utf8_seq_append_ascii) simp_all
      show ?thesis
      proof (cases "utf8_seq s")
        case None
        have "utf8_decode (s @ a # w) = 65533 # utf8_decode (bs @ a # w)"
          using False None seq unfolding Cons
          by (subst utf8_decode.simps) simp
        also have "utf8_decode (bs @ a # w) = utf8_decode bs @ utf8_decode (a # w)"
          using "1.IH"(2) [OF Cons False None] "1.prems" .
        finally show ?thesis
          using False None unfolding Cons
          by (subst (2) utf8_decode.simps) simp
      next
        case (Some r)
        obtain cp n where r: "r = (cp, n)"
          by (cases r)
        have n: "2 \<le> n" "n \<le> length s"
          using utf8_seq_length Some unfolding r by blast+
        have n1: "n - 1 \<le> length bs"
          using n Cons by simp
        have "utf8_decode (s @ a # w) = cp # utf8_decode (drop (n - 1) (bs @ a # w))"
          using False Some seq unfolding Cons r
          by (subst utf8_decode.simps) simp
        also have "drop (n - 1) (bs @ a # w) = drop (n - 1) bs @ a # w"
          using n1 by simp
        also have "utf8_decode (drop (n - 1) bs @ a # w)
            = utf8_decode (drop (n - 1) bs) @ utf8_decode (a # w)"
          using "1.IH"(3) [OF Cons False Some r [symmetric]] "1.prems" .
        finally show ?thesis
          using False Some unfolding Cons r
          by (subst (2) utf8_decode.simps) simp
      qed
    qed
  qed
qed

lemma utf8_decode_ascii:
  "\<forall>c\<in>set s. (of_char c :: nat) < 128 \<Longrightarrow> utf8_decode s = map of_char s"
  by (induction s) (simp_all add: utf8_decode_Nil utf8_decode_ascii_Cons)

lemma utf8_length_ascii:
  "\<forall>c\<in>set s. (of_char c :: nat) < 128 \<Longrightarrow> utf8_length s = length s"
  by (simp add: utf8_length_def utf8_decode_ascii)

lemma utf8_decode_around_api:
  "utf8_decode (u @ ''api'' @ v) = utf8_decode u @ [97, 112, 105] @ utf8_decode v"
proof -
  have "utf8_decode (u @ ''api'' @ v) = utf8_decode (u @ CHR ''a'' # (''pi'' @ v))"
    by simp
  also have "\<dots> = utf8_decode u @ utf8_decode (CHR ''a'' # (''pi'' @ v))"
    by (rule utf8_decode_append_ascii) simp
  also have "utf8_decode (CHR ''a'' # (''pi'' @ v)) = [97, 112, 105] @ utf8_decode v"
    by (simp add: utf8_decode_ascii_Cons)
  finally show ?thesis .
qed

text \<open>\<open>.*\<close> passes over any characters that are not line terminators.\<close>

lemma DotStar_skips:
  assumes "\<forall>x\<in>set du. \<not> line_terminator x"
    and "\<And>b. tokens_match ts b rest"
  shows "tokens_match (DotStar # ts) first (du @ rest)"
  using assms(1)
proof (induction du arbitrary: first)
  case Nil
  then show ?case using assms(2) by simp
next
  case (Cons x xs)
  then have "tokens_match (DotStar # ts) False (xs @ rest)"
    by simp
  then show ?case using Cons.prems by simp
qed

lemma api_glob_matches:
  assumes "\<forall>x\<in>set (utf8_decode (u @ ''api'' @ v)). \<not> line_terminator x"
  shows "store_regex_match (globToRegex ''*api*'') (u @ ''api'' @ v)"
proof -
  have du: "\<forall>x\<in>set (utf8_decode u). \<not> line_terminator x"
    and dv: "\<forall>x\<in>set (utf8_decode v). \<not> line_terminator x"
    using assms unfolding utf8_decode_around_api by simp_all
  have tail: "tokens_match [DotStar, LineEnd] b (utf8_decode v)" for b
    using DotStar_skips [OF dv, of "[LineEnd]" "[]" b] by simp
  have mid: "tokens_match [Literal 97, Literal 112, Literal 105, DotStar, LineEnd] b
      ([97, 112, 105] @ utf8_decode v)" for b
    using tail [of False] by simp
  have "tokens_match [DotStar, Literal 97, Literal 112, Literal 105, DotStar, LineEnd] True
      (utf8_decode u @ [97, 112, 105] @ utf8_decode v)"
    using du mid by (rule DotStar_skips)
  then show ?thesis
    unfolding store_regex_match_def parse_api utf8_decode_around_api by simp
qed

text \<open>
  C4 as stated fails, twice: the pattern made from \<open>foo*.go\<close> matches \<open>foobar.go\<close> and
  does not reject \<open>foo/bar.go\<close>; and the pattern made from \<open>*api*\<close> does not match a path
  that contains \<open>api\<close> and, after it, a line feed.
\<close>

theorem glob_accepts_slash_and_misses_line_feed:
  "store_regex_match (globToRegex ''foo*.go'') ''foobar.go''
   \<and> store_regex_match (globToRegex ''foo*.go'') ''foo/bar.go''
   \<and> ''/src/api'' @ [CHR 0x0A] @ ''/x.go'' = ''/src/'' @ ''api'' @ ([CHR 0x0A] @ ''/x.go'')
   \<and> \<not> store_regex_match (globToRegex ''*api*'') (''/src/api'' @ [CHR 0x0A] @ ''/x.go'')"
proof -
  have plain: "store_regex_match (globToRegex ''foo*.go'') ''foobar.go''"
    unfolding store_regex_match_def parse_foo by (simp add: utf8_eval line_terminator_def)
  have slash: "store_regex_match (globToRegex ''foo*.go'') ''foo/bar.go''"
    unfolding store_regex_match_def parse_foo by (simp add: utf8_eval line_terminator_def)
  have feed: "\<not> store_regex_match (globToRegex ''*api*'') (''/src/api'' @ [CHR 0x0A] @ ''/x.go'')"
    unfolding store_regex_match_def parse_api by (simp add: utf8_eval line_terminator_def)
  show ?thesis
    using plain slash feed by simp
qed

text \<open>
  C4, as the code behaves. The pattern made from \<open>foo*.go\<close> is \<open>^foo.*\.go$\<close>; it accepts
  \<open>foobar.go\<close> and it accepts \<open>foo/bar.go\<close> as well, since \<open>*\<close> becomes \<open>.*\<close>, which
  crosses the path separator. The pattern made from \<open>*api*\<close> is \<open>^.*api.*$\<close>; it matches
  every path that contains \<open>api\<close> and none of whose characters is a line terminator
  (line feed, carriage return, U+0085, U+2028, U+2029), whatever its other characters.
\<close>

theorem glob_patterns_match:
  "globToRegex ''foo*.go'' = ''^foo.*'' @ [backslash] @ ''.go$''
   \<and> store_regex_match (globToRegex ''foo*.go'') ''foobar.go''
   \<and> store_regex_match (globToRegex ''foo*.go'') ''foo/bar.go''
   \<and> globToRegex ''*api*'' = ''^.*api.*$''
   \<and> (\<forall>path. (\<exists>u v. path = u @ ''api'' @ v)
          \<and> (\<forall>cp\<in>set (utf8_decode path). \<not> line_terminator cp)
        \<longrightarrow> store_regex_match (globToRegex ''*api*'') path)"
proof (intro conjI allI impI)
  show "globToRegex ''foo*.go'' = ''^foo.*'' @ [backslash] @ ''.go$''"
    by (rule globToRegex_foo)
  show "store_regex_match (globToRegex ''foo*.go'') ''foobar.go''"
    unfolding store_regex_match_def parse_foo by (simp add: utf8_eval line_terminator_def)
  show "store_regex_match (globToRegex ''foo*.go'') ''foo/bar.go''"
    unfolding store_regex_match_def parse_foo by (simp add: utf8_eval line_terminator_def)
  show "globToRegex ''*api*'' = ''^.*api.*$''"
    by (rule globToRegex_api)
next
  fix path
  assume h: "(\<exists>u v. path = u @ ''api'' @ v)
      \<and> (\<forall>cp\<in>set (utf8_decode path). \<not> line_terminator cp)"
  then obtain u v where path: "path = u @ ''api'' @ v"
    by blast
  have "\<forall>x\<in>set (utf8_decode (u @ ''api'' @ v)). \<not> line_terminator x"
    using h unfolding path by blast
  then show "store_regex_match (globToRegex ''*api*'') path"
    unfolding path by (rule api_glob_matches)
qed

theorem glob_patterns_match_witness:
  "''/src/caf'' @ [CHR 0xC3, CHR 0xA9] @ ''/api/x.go'' = (''/src/caf'' @ [CHR 0xC3, CHR 0xA9] @ ''/'') @ ''api'' @ ''/x.go''
   \<and> utf8_decode (''/src/caf'' @ [CHR 0xC3, CHR 0xA9] @ ''/api/x.go'')
       = [47, 115, 114, 99, 47, 99, 97, 102, 233, 47, 97, 112, 105, 47, 120, 46, 103, 111]
   \<and> list_all (\<lambda>cp. \<not> line_terminator cp) (utf8_decode (''/src/caf'' @ [CHR 0xC3, CHR 0xA9] @ ''/api/x.go''))
   \<and> store_regex_match (globToRegex ''*api*'') (''/src/caf'' @ [CHR 0xC3, CHR 0xA9] @ ''/api/x.go'')"
proof -
  let ?path = "''/src/caf'' @ [CHR 0xC3, CHR 0xA9] @ ''/api/x.go''"
  have dec: "utf8_decode ?path
      = [47, 115, 114, 99, 47, 99, 97, 102, 233, 47, 97, 112, 105, 47, 120, 46, 103, 111]"
    by (simp add: utf8_eval)
  have h1: "\<forall>cp\<in>set (utf8_decode ?path). \<not> line_terminator cp"
    unfolding dec by (simp add: line_terminator_def)
  have h2: "?path = (''/src/caf'' @ [CHR 0xC3, CHR 0xA9] @ ''/'') @ ''api'' @ ''/x.go''"
    by simp
  have "\<exists>u v. ?path = u @ ''api'' @ v"
    using h2 by blast
  then have "store_regex_match (globToRegex ''*api*'') ?path"
    using glob_patterns_match h1 by blast
  then show ?thesis
    using h1 h2 dec unfolding list_all_iff by blast
qed

section \<open>The ranking query\<close>

lemma ranked_members:
  assumes "r \<in> set (ranked cosine size_of q minScore nodes)"
  shows "\<exists>c\<in>set nodes. r = (c, cosine (Embedding c) q + entityBoost c + sizeBoost size_of c + sizePenalty size_of c)
           \<and> cosine (Embedding c) q > minScore \<and> snd r > minScore"
  using assms by (auto simp: ranked_def Let_def)

lemma ranked_sorted:
  "sorted_wrt (\<lambda>a b. snd a \<ge> snd b) (ranked cosine size_of q minScore nodes)"
proof -
  have "sorted (map (\<lambda>(c, score). - score) (ranked cosine size_of q minScore nodes))"
    unfolding ranked_def Let_def by (rule sorted_sort_key)
  then have "sorted_wrt (\<lambda>a b. (case a of (c, score) \<Rightarrow> - score) \<le> (case b of (c, score) \<Rightarrow> - score))
      (ranked cosine size_of q minScore nodes)"
    by (simp only: sorted_map)
  then show ?thesis
    by (rule sorted_wrt_mono_rel [rotated]) auto
qed

lemma result_chunk_fields:
  "Score (result_chunk (c, s)) = s"
  "ID (result_chunk (c, s)) = ID c"
  "Content (result_chunk (c, s)) = Content c"
  "EntityType (result_chunk (c, s)) = EntityType c"
  by (simp_all add: result_chunk_def zero_chunk_def)

lemma SearchCodeAdvanced_rows:
  assumes "SearchCodeAdvanced service cosine size_of toLower fields_of nodes query limit languages pathFilters minScore useKeywords = Inr rows"
  shows "nodes = [] \<and> rows = []
     \<or> 0 \<le> limit \<and> rows = map result_chunk (take (nat limit)
          (ranked cosine size_of (hd (projr (getEmbeddings service [query]))) minScore
             (filter (candidate languages pathFilters useKeywords (extractKeywords toLower fields_of query)) nodes)))"
  using assms by (auto simp: SearchCodeAdvanced_def Let_def split: sum.splits if_splits)

text \<open>
  C5. Every row \<open>SearchCodeAdvanced\<close> returns comes from a Chunk node whose vector score
  is above \<open>minScore\<close>, and its final score is above \<open>minScore\<close> too (both strictly); the
  rows are in descending order of score; and, for a limit that is not negative, there
  are at most \<open>limit\<close> of them. The query embedding is the first vector the embedding
  service returned.
\<close>

theorem SearchCodeAdvanced_threshold_order_limit:
  assumes run: "SearchCodeAdvanced service cosine size_of toLower fields_of nodes query limit languages pathFilters minScore useKeywords
      = Inr rows"
    and limit: "0 \<le> limit"
  shows "(\<forall>r\<in>set rows. \<exists>c\<in>set nodes.
            ID r = ID c
            \<and> cosine (Embedding c) (hd (projr (getEmbeddings service [query]))) > minScore
            \<and> Score r > minScore)
     \<and> sorted_wrt (\<lambda>a b. a \<ge> b) (map Score rows)
     \<and> int (length rows) \<le> limit"
proof -
  let ?q = "hd (projr (getEmbeddings service [query]))"
  let ?cands = "filter (candidate languages pathFilters useKeywords (extractKeywords toLower fields_of query)) nodes"
  let ?ranked = "ranked cosine size_of ?q minScore ?cands"
  from SearchCodeAdvanced_rows [OF run] show ?thesis
  proof
    assume "nodes = [] \<and> rows = []"
    then show ?thesis using limit by simp
  next
    assume "0 \<le> limit \<and> rows = map result_chunk (take (nat limit) ?ranked)"
    then have rows: "rows = map result_chunk (take (nat limit) ?ranked)"
      by simp
    have members: "\<forall>r\<in>set rows. \<exists>c\<in>set nodes. ID r = ID c \<and> cosine (Embedding c) ?q > minScore
        \<and> Score r > minScore"
    proof
      fix r assume "r \<in> set rows"
      then obtain p where p: "p \<in> set ?ranked" "r = result_chunk p"
        unfolding rows by (auto dest: in_set_takeD)
      from ranked_members [OF p(1)] obtain c where c: "c \<in> set ?cands"
          "p = (c, cosine (Embedding c) ?q + entityBoost c + sizeBoost size_of c + sizePenalty size_of c)"
          "cosine (Embedding c) ?q > minScore" "snd p > minScore"
        by blast
      have "c \<in> set nodes" using c(1) by simp
      moreover have "ID r = ID c" "Score r > minScore"
        using c(2,4) p(2) by (simp_all add: result_chunk_fields)
      ultimately show "\<exists>c\<in>set nodes. ID r = ID c \<and> cosine (Embedding c) ?q > minScore \<and> Score r > minScore"
        using c(3) by blast
    qed
    have "sorted_wrt (\<lambda>a b. snd a \<ge> snd b) (take (nat limit) ?ranked)"
      using ranked_sorted by (rule sorted_wrt_take)
    then have order: "sorted_wrt (\<lambda>a b. a \<ge> b) (map Score rows)"
      unfolding rows by (simp add: sorted_wrt_map result_chunk_def zero_chunk_def case_prod_beta)
    have "int (length rows) \<le> limit"
      unfolding rows using limit by simp
    then show ?thesis using members order by blast
  qed
qed

theorem SearchCodeAdvanced_threshold_order_limit_witness:
  "0 \<le> (10 :: int)
   \<and> SearchCodeAdvanced (\<lambda>texts. Body (JObj [(''embeddings'', JArr [JArr [JNum 1] ])])) (\<lambda>a b. 1 / 2) utf8_length ascii_ToLower ascii_Fields
        [zero_chunk\<lparr>ID := ''m'', Content := replicate 2500 CHR ''y'', EntityType := ''chunk''\<rparr>,
         zero_chunk\<lparr>ID := ''f'', Content := replicate 200 CHR ''x'', EntityType := ''function''\<rparr>]
        ''q'' 10 [] [] (1 / 10) False
      = Inr [result_chunk (zero_chunk\<lparr>ID := ''f'', Content := replicate 200 CHR ''x'', EntityType := ''function''\<rparr>, 0.65),
             result_chunk (zero_chunk\<lparr>ID := ''m'', Content := replicate 2500 CHR ''y'', EntityType := ''chunk''\<rparr>, 0.45)]
   \<and> sorted_wrt (\<lambda>a b. a \<ge> b) (map Score
        [result_chunk (zero_chunk\<lparr>ID := ''f'', Content := replicate 200 CHR ''x'', EntityType := ''function''\<rparr>, 0.65),
         result_chunk (zero_chunk\<lparr>ID := ''m'', Content := replicate 2500 CHR ''y'', EntityType := ''chunk''\<rparr>, 0.45)])"
proof -
  let ?service = "\<lambda>texts :: string list. Body (JObj [(''embeddings'', JArr [JArr [JNum 1] ])])"
  let ?m = "zero_chunk\<lparr>ID := ''m'', Content := replicate 2500 CHR ''y'', EntityType := ''chunk''\<rparr>"
  let ?f = "zero_chunk\<lparr>ID := ''f'', Content := replicate 200 CHR ''x'', EntityType := ''function''\<rparr>"
  have emb: "getEmbeddings ?service [''q''] = Inr [ [1] ]"
    by (simp add: getEmbeddings_def to_lower_char_def)
  have run: "SearchCodeAdvanced ?service (\<lambda>a b. 1 / 2) utf8_length ascii_ToLower ascii_Fields [?m, ?f] ''q'' 10 [] [] (1 / 10) False
      = Inr [result_chunk (?f, 0.65), result_chunk (?m, 0.45)]"
    by (simp add: SearchCodeAdvanced_def emb candidate_def ranked_def entityBoost_def sizeBoost_def
        sizePenalty_def zero_chunk_def utf8_length_ascii)
  have lim: "0 \<le> (10 :: int)"
    by simp
  show ?thesis
    using SearchCodeAdvanced_threshold_order_limit [OF run lim] run by simp
qed

text \<open>The wide chunk: 2500 bytes that are 1250 characters.\<close>

lemma utf8_decode_e_acute:
  "utf8_decode (CHR 0xC3 # CHR 0xA9 # w) = 233 # utf8_decode w"
  by (subst utf8_decode.simps) (simp add: utf8_seq_def is_cont_def)

lemma utf8_decode_e_acutes:
  "utf8_decode (concat (replicate n [CHR 0xC3, CHR 0xA9])) = replicate n 233"
  by (induction n) (simp_all add: utf8_decode_Nil utf8_decode_e_acute)

lemma wide_content_sizes:
  "length wide_content = 2500"
  "utf8_length wide_content = 1250"
  by (simp_all add: wide_content_def utf8_length_def utf8_decode_e_acutes length_concat
      sum_list_replicate)

text \<open>
  C6 as stated fails when the length of the content is its number of bytes. The wide
  chunk is not a function or method and has 2500 bytes, which are 1250 characters; the
  store's \<open>size\<close> counts the characters, so with vector score 0.5 the wide chunk scores
  0.5 and not 0.45.
\<close>

theorem SearchCodeAdvanced_wide_chunk_not_penalised:
  "EntityType wide_chunk = ''chunk''
   \<and> length (Content wide_chunk) = 2500
   \<and> utf8_length (Content wide_chunk) = 1250
   \<and> SearchCodeAdvanced (\<lambda>texts. Body (JObj [(''embeddings'', JArr [JArr [JNum 1] ])])) (\<lambda>a b. 1 / 2)
        utf8_length ascii_ToLower ascii_Fields [wide_chunk] ''q'' 10 [] [] (1 / 10) False
      = Inr [result_chunk (wide_chunk, 0.5)]
   \<and> \<not> SearchCodeAdvanced (\<lambda>texts. Body (JObj [(''embeddings'', JArr [JArr [JNum 1] ])])) (\<lambda>a b. 1 / 2)
        utf8_length ascii_ToLower ascii_Fields [wide_chunk] ''q'' 10 [] [] (1 / 10) False
      = Inr [result_chunk (wide_chunk, 0.45)]"
proof -
  let ?service = "\<lambda>texts :: string list. Body (JObj [(''embeddings'', JArr [JArr [JNum 1] ])])"
  have emb: "getEmbeddings ?service [''q''] = Inr [ [1] ]"
    by (simp add: getEmbeddings_def to_lower_char_def)
  have fields: "EntityType wide_chunk = ''chunk''" "Content wide_chunk = wide_content"
    by (simp_all add: wide_chunk_def zero_chunk_def)
  have rk: "ranked (\<lambda>a b. 1 / 2) utf8_length [1] (1 / 10) [wide_chunk] = [(wide_chunk, 1 / 2)]"
    by (simp add: ranked_def entityBoost_def sizeBoost_def sizePenalty_def fields wide_content_sizes)
  have run: "SearchCodeAdvanced ?service (\<lambda>a b. 1 / 2) utf8_length ascii_ToLower ascii_Fields
        [wide_chunk] ''q'' 10 [] [] (1 / 10) False
      = Inr [result_chunk (wide_chunk, 1 / 2)]"
    by (simp add: SearchCodeAdvanced_def emb candidate_def rk)
  have differ: "result_chunk (wide_chunk, 1 / 2) \<noteq> result_chunk (wide_chunk, 0.45)"
  proof
    assume "result_chunk (wide_chunk, 1 / 2) = result_chunk (wide_chunk, 0.45)"
    then have "Score (result_chunk (wide_chunk, 1 / 2)) = Score (result_chunk (wide_chunk, 0.45))"
      by (rule arg_cong)
    then show False
      by (simp add: result_chunk_fields)
  qed
  show ?thesis
    unfolding run using differ by (simp add: fields wide_content_sizes)
qed

text \<open>
  C6, as the code behaves. The score of every returned row is the vector score of its
  Chunk node plus 0.1 exactly when the entity type is \<open>function\<close> or \<open>method\<close>, plus
  0.05 exactly when the store's \<open>size\<close> of the content, its number of characters, is
  below 500, minus 0.05 exactly when that number is above 2000. In particular, when a
  function \<open>f\<close> of 200 characters and a chunk \<open>m\<close> of another kind of 2500 characters both
  have vector score 0.5, the query without filters returns \<open>f\<close> first with score 0.65
  and \<open>m\<close> second with score 0.45. For ASCII content the number of characters is the
  number of bytes.
\<close>

theorem SearchCodeAdvanced_score_formula:
  "(\<forall>rows. SearchCodeAdvanced service cosine size_of toLower fields_of nodes query limit languages
          pathFilters minScore useKeywords
        = Inr rows \<longrightarrow>
      (\<forall>r\<in>set rows. \<exists>c\<in>set nodes.
          ID r = ID c \<and> EntityType r = EntityType c \<and> Content r = Content c
          \<and> Score r = cosine (Embedding c) (hd (projr (getEmbeddings service [query])))
              + (if EntityType r = ''function'' \<or> EntityType r = ''method'' then 0.1 else 0)
              + (if size_of (Content r) < 500 then 0.05 else 0)
              + (if size_of (Content r) > 2000 then - 0.05 else 0)))
   \<and> (getEmbeddings service [query] = Inr [q] \<and> q \<noteq> []
        \<and> EntityType f = ''function'' \<and> size_of (Content f) = 200
        \<and> EntityType m \<noteq> ''function'' \<and> EntityType m \<noteq> ''method'' \<and> size_of (Content m) = 2500
        \<and> cosine (Embedding f) q = 0.5 \<and> cosine (Embedding m) q = 0.5
        \<and> minScore < 0.45 \<and> 2 \<le> limit \<longrightarrow>
      SearchCodeAdvanced service cosine size_of toLower fields_of [m, f] query limit [] [] minScore False
        = Inr [result_chunk (f, 0.65), result_chunk (m, 0.45)])
   \<and> ((\<forall>c\<in>set s. (of_char c :: nat) < 128) \<longrightarrow> utf8_length s = length s)"
proof (intro conjI allI impI)
  fix rows
  assume run: "SearchCodeAdvanced service cosine size_of toLower fields_of nodes query limit languages
      pathFilters minScore useKeywords = Inr rows"
  let ?q = "hd (projr (getEmbeddings service [query]))"
  let ?cands = "filter (candidate languages pathFilters useKeywords (extractKeywords toLower fields_of query)) nodes"
  let ?ranked = "ranked cosine size_of ?q minScore ?cands"
  show "\<forall>r\<in>set rows. \<exists>c\<in>set nodes.
          ID r = ID c \<and> EntityType r = EntityType c \<and> Content r = Content c
          \<and> Score r = cosine (Embedding c) ?q
              + (if EntityType r = ''function'' \<or> EntityType r = ''method'' then 0.1 else 0)
              + (if size_of (Content r) < 500 then 0.05 else 0)
              + (if size_of (Content r) > 2000 then - 0.05 else 0)"
  proof
    fix r assume r: "r \<in> set rows"
    from SearchCodeAdvanced_rows [OF run] r
    have rows: "rows = map result_chunk (take (nat limit) ?ranked)"
      by auto
    from r obtain p where p: "p \<in> set ?ranked" "r = result_chunk p"
      unfolding rows by (auto dest: in_set_takeD)
    from ranked_members [OF p(1)] obtain c where c: "c \<in> set ?cands"
        "p = (c, cosine (Embedding c) ?q + entityBoost c + sizeBoost size_of c + sizePenalty size_of c)"
      by blast
    have "c \<in> set nodes" using c(1) by simp
    moreover have "ID r = ID c" "EntityType r = EntityType c" "Content r = Content c"
      "Score r = cosine (Embedding c) ?q + entityBoost c + sizeBoost size_of c + sizePenalty size_of c"
      unfolding p(2) c(2) by (simp_all add: result_chunk_fields)
    ultimately show "\<exists>c\<in>set nodes.
          ID r = ID c \<and> EntityType r = EntityType c \<and> Content r = Content c
          \<and> Score r = cosine (Embedding c) ?q
              + (if EntityType r = ''function'' \<or> EntityType r = ''method'' then 0.1 else 0)
              + (if size_of (Content r) < 500 then 0.05 else 0)
              + (if size_of (Content r) > 2000 then - 0.05 else 0)"
      by (intro bexI [of _ c]) (simp_all add: entityBoost_def sizeBoost_def sizePenalty_def)
  qed
next
  assume h: "getEmbeddings service [query] = Inr [q] \<and> q \<noteq> []
        \<and> EntityType f = ''function'' \<and> size_of (Content f) = 200
        \<and> EntityType m \<noteq> ''function'' \<and> EntityType m \<noteq> ''method'' \<and> size_of (Content m) = 2500
        \<and> cosine (Embedding f) q = 0.5 \<and> cosine (Embedding m) q = 0.5
        \<and> minScore < 0.45 \<and> 2 \<le> limit"
  have rk: "ranked cosine size_of q minScore [m, f] = [(f, 0.65), (m, 0.45)]"
    using h by (simp add: ranked_def entityBoost_def sizeBoost_def sizePenalty_def)
  have "length [(f, 0.65 :: real), (m, 0.45)] \<le> nat limit"
    using h by simp linarith
  then have tk: "take (nat limit) [(f, 0.65 :: real), (m, 0.45)] = [(f, 0.65), (m, 0.45)]"
    by (rule take_all)
  have res: "map result_chunk (take (nat limit) (ranked cosine size_of q minScore [m, f]))
      = [result_chunk (f, 0.65), result_chunk (m, 0.45)]"
    unfolding rk tk by simp
  have cands: "filter (candidate [] [] False (extractKeywords toLower fields_of query)) [m, f] = [m, f]"
    by (simp add: candidate_def)
  have "SearchCodeAdvanced service cosine size_of toLower fields_of [m, f] query limit [] [] minScore False
      = Inr (map result_chunk (take (nat limit) (ranked cosine size_of q minScore [m, f])))"
    unfolding SearchCodeAdvanced_def Let_def cands using h by simp
  then show "SearchCodeAdvanced service cosine size_of toLower fields_of [m, f] query limit [] [] minScore False
        = Inr [result_chunk (f, 0.65), result_chunk (m, 0.45)]"
    unfolding res .
next
  assume "\<forall>c\<in>set s. (of_char c :: nat) < 128"
  then show "utf8_length s = length s"
    by (rule utf8_length_ascii)
qed

theorem SearchCodeAdvanced_score_formula_witness:
  "getEmbeddings (\<lambda>texts. Body (JObj [(''embeddings'', JArr [JArr [JNum 1] ])])) [''q''] = Inr [ [1] ]
   \<and> list_all (\<lambda>c. (of_char c :: nat) < 128) (replicate 200 CHR ''x'')
   \<and> utf8_length (replicate 200 CHR ''x'') = 200 \<and> utf8_length (replicate 2500 CHR ''y'') = 2500
   \<and> (1 / 10 :: real) < 0.45 \<and> (2 :: int) \<le> 10
   \<and> SearchCodeAdvanced (\<lambda>texts. Body (JObj [(''embeddings'', JArr [JArr [JNum 1] ])])) (\<lambda>a b. 1 / 2)
        utf8_length ascii_ToLower ascii_Fields
        [zero_chunk\<lparr>ID := ''m'', Content := replicate 2500 CHR ''y'', EntityType := ''chunk''\<rparr>,
         zero_chunk\<lparr>ID := ''f'', Content := replicate 200 CHR ''x'', EntityType := ''function''\<rparr>]
        ''q'' 10 [] [] (1 / 10) False
      = Inr [result_chunk (zero_chunk\<lparr>ID := ''f'', Content := replicate 200 CHR ''x'', EntityType := ''function''\<rparr>, 0.65),
             result_chunk (zero_chunk\<lparr>ID := ''m'', Content := replicate 2500 CHR ''y'', EntityType := ''chunk''\<rparr>, 0.45)]"
proof -
  let ?service = "\<lambda>texts :: string list. Body (JObj [(''embeddings'', JArr [JArr [JNum 1] ])])"
  let ?m = "zero_chunk\<lparr>ID := ''m'', Content := replicate 2500 CHR ''y'', EntityType := ''chunk''\<rparr>"
  let ?f = "zero_chunk\<lparr>ID := ''f'', Content := replicate 200 CHR ''x'', EntityType := ''function''\<rparr>"
  note formula = SearchCodeAdvanced_score_formula [of ?service "\<lambda>a b. 1 / 2" utf8_length
      ascii_ToLower ascii_Fields "[]" "''q''" 10 "[]" "[]" "1 / 10" False "[1]" ?f ?m
      "replicate 200 CHR ''x''"]
  have emb: "getEmbeddings ?service [''q''] = Inr [ [1] ]"
    by (simp add: getEmbeddings_def to_lower_char_def)
  have ascii: "\<forall>c\<in>set (replicate 200 CHR ''x''). (of_char c :: nat) < 128"
    by simp
  have size_f: "utf8_length (replicate 200 CHR ''x'') = 200"
    using formula [THEN conjunct2, THEN conjunct2] ascii by simp
  have size_m: "utf8_length (replicate 2500 CHR ''y'') = 2500"
    by (simp add: utf8_length_ascii)
  have h: "getEmbeddings ?service [''q''] = Inr [ [1] ] \<and> [1 :: real] \<noteq> []
        \<and> EntityType ?f = ''function'' \<and> utf8_length (Content ?f) = 200
        \<and> EntityType ?m \<noteq> ''function'' \<and> EntityType ?m \<noteq> ''method'' \<and> utf8_length (Content ?m) = 2500
        \<and> (\<lambda>a b. 1 / 2 :: real) (Embedding ?f) [1] = 0.5 \<and> (\<lambda>a b. 1 / 2 :: real) (Embedding ?m) [1] = 0.5
        \<and> (1 / 10 :: real) < 0.45 \<and> (2 :: int) \<le> 10"
    using emb size_f size_m by (simp add: zero_chunk_def)
  have "SearchCodeAdvanced ?service (\<lambda>a b. 1 / 2) utf8_length ascii_ToLower ascii_Fields [?m, ?f]
        ''q'' 10 [] [] (1 / 10) False
      = Inr [result_chunk (?f, 0.65), result_chunk (?m, 0.45)]"
    using formula [THEN conjunct2, THEN conjunct1] h
    by blast
  then show ?thesis
    using emb size_f size_m ascii unfolding list_all_iff by simp
qed

section \<open>The embedding client\<close>

lemma assign_embeddings_exact:
  "i + length embeddings = length chunks \<Longrightarrow>
   \<exists>out. assign_embeddings chunks i embeddings = Inr out \<and> length out = length chunks
     \<and> (\<forall>k<length embeddings. Embedding (out ! (i + k)) = embeddings ! k)
     \<and> (\<forall>k<i. out ! k = chunks ! k)"
proof (induction embeddings arbitrary: i chunks)
  case Nil
  then show ?case by simp
next
  case (Cons e es)
  let ?chunks = "chunks[i := (chunks ! i)\<lparr>Embedding := e\<rparr>]"
  have i: "i < length chunks"
    using Cons.prems by simp
  have "Suc i + length es = length ?chunks"
    using Cons.prems by simp
  from Cons.IH [OF this] obtain out where out:
    "assign_embeddings ?chunks (Suc i) es = Inr out" "length out = length ?chunks"
    "\<forall>k<length es. Embedding (out ! (Suc i + k)) = es ! k"
    "\<forall>k<Suc i. out ! k = ?chunks ! k"
    by blast
  have run: "assign_embeddings chunks i (e # es) = Inr out"
    using i out(1) by simp
  have at_i: "Embedding (out ! i) = e"
    using out(4) i by simp
  have later: "\<forall>k<length (e # es). Embedding (out ! (i + k)) = (e # es) ! k"
  proof (intro allI impI)
    fix k assume "k < length (e # es)"
    then show "Embedding (out ! (i + k)) = (e # es) ! k"
      using at_i out(3) by (cases k) simp_all
  qed
  have before: "\<forall>k<i. out ! k = chunks ! k"
    using out(4) by simp
  show ?case
    using run out(2) later before by simp
qed

text \<open>
  When the service answers with exactly one vector per text, every chunk gets the vector
  at its position.
\<close>

lemma generateEmbeddings_exact:
  assumes "getEmbeddings service (map Content chunks) = Inr embeddings"
    and "length embeddings = length chunks"
  shows "\<exists>out. generateEmbeddings service chunks = Inr out \<and> length out = length chunks
     \<and> (\<forall>k<length chunks. Embedding (out ! k) = embeddings ! k)"
proof (cases "chunks = []")
  case True
  then show ?thesis by (simp add: generateEmbeddings_def)
next
  case False
  have "0 + length embeddings = length chunks"
    using assms(2) by simp
  from assign_embeddings_exact [OF this] show ?thesis
    using False assms by (auto simp: generateEmbeddings_def)
qed

text \<open>
  C7 fails on the code. \<open>getEmbeddings\<close> returns whatever slice the decoder filled: for
  one input text, a response \<open>{"embeddings": []}\<close>, or \<open>{}\<close>, decodes without error to no
  vector at all, and the call succeeds; \<open>generateEmbeddings\<close> then succeeds and leaves the
  chunk without an embedding. A response with two vectors for one chunk makes the
  assignment loop index past the end of the chunks.
\<close>

theorem getEmbeddings_does_not_check_length:
  "getEmbeddings (\<lambda>texts. Body (JObj [(''embeddings'', JArr [])])) [''x''] = Inr []
   \<and> getEmbeddings (\<lambda>texts. Body (JObj [])) [''x''] = Inr []
   \<and> generateEmbeddings (\<lambda>texts. Body (JObj [(''embeddings'', JArr [])])) [zero_chunk\<lparr>Content := ''x''\<rparr>]
       = Inr [zero_chunk\<lparr>Content := ''x''\<rparr>]
   \<and> Embedding (zero_chunk\<lparr>Content := ''x''\<rparr>) = []
   \<and> generateEmbeddings (\<lambda>texts. Body (JObj [(''embeddings'', JArr [JArr [JNum 1], JArr [JNum 2] ])]))
        [zero_chunk\<lparr>Content := ''x''\<rparr>]
       = Inl IndexOutOfRange"
  by (simp add: getEmbeddings_def generateEmbeddings_def to_lower_char_def zero_chunk_def)

section \<open>Re-ingesting a file\<close>

lemma storeChunks_skips:
  "\<forall>c\<in>set chunks. \<exists>stored. store (ID c) = Some stored \<and> Hash stored = Hash c \<Longrightarrow>
   storeChunks store chunks = (store, [])"
  by (induction chunks) auto

lemma storeChunks_fst_Cons:
  "fst (storeChunks store (c # cs)) =
     (if \<exists>stored. store (ID c) = Some stored \<and> Hash stored = Hash c then fst (storeChunks store cs)
      else fst (storeChunks (store(ID c \<mapsto> c)) cs))"
  by (auto split: option.splits prod.splits)

lemma storeChunks_other:
  "k \<notin> ID ` set chunks \<Longrightarrow> fst (storeChunks store chunks) k = store k"
proof (induction chunks arbitrary: store)
  case Nil
  show ?case by simp
next
  case (Cons c cs)
  have k: "k \<noteq> ID c" "k \<notin> ID ` set cs"
    using Cons.prems by auto
  show ?case
    unfolding storeChunks_fst_Cons using Cons.IH [OF k(2)] k(1) by simp
qed

lemma storeChunks_holds_hashes:
  "distinct (map ID chunks) \<Longrightarrow>
   \<forall>c\<in>set chunks. \<exists>stored. fst (storeChunks store chunks) (ID c) = Some stored \<and> Hash stored = Hash c"
proof (induction chunks arbitrary: store)
  case Nil
  show ?case by simp
next
  case (Cons chunk chunks)
  have fresh: "ID chunk \<notin> ID ` set chunks"
    using Cons.prems by auto
  have rest: "\<forall>c\<in>set chunks. \<exists>stored. fst (storeChunks s chunks) (ID c) = Some stored \<and> Hash stored = Hash c"
    for s
    using Cons.IH [of s] Cons.prems by simp
  show ?case
  proof (cases "\<exists>stored. store (ID chunk) = Some stored \<and> Hash stored = Hash chunk")
    case True
    then have eq: "storeChunks store (chunk # chunks) = storeChunks store chunks"
      by auto
    have "\<exists>stored. fst (storeChunks store chunks) (ID chunk) = Some stored \<and> Hash stored = Hash chunk"
      using True storeChunks_other [OF fresh, of store] by simp
    then show ?thesis
      unfolding eq using rest [of store] by simp
  next
    case False
    let ?store = "store(ID chunk \<mapsto> chunk)"
    have eq: "fst (storeChunks store (chunk # chunks)) = fst (storeChunks ?store chunks)"
      unfolding storeChunks_fst_Cons using False by (simp only: if_False)
    have "fst (storeChunks ?store chunks) (ID chunk) = Some chunk"
      using storeChunks_other [OF fresh, of ?store] by simp
    then show ?thesis
      unfolding eq using rest [of ?store] by simp
  qed
qed

text \<open>
  What holds of the skip: when the ids of a file's chunks are pairwise distinct, a second
  run of \<open>storeChunks\<close> on the store the first run left writes no chunk.
\<close>

lemma storeChunks_second_run_skips:
  assumes "distinct (map ID chunks)"
  shows "snd (storeChunks (fst (storeChunks store chunks)) chunks) = []"
  using storeChunks_skips [OF storeChunks_holds_hashes [OF assms, of store] ] by simp

lemma assign_id_hash_id:
  "ID (assign_id_hash md5hex fp c) = md5hex (fp @ '':'' @ show_int (StartLine c) @ '':'' @ show_int (EndLine c))"
  "Hash (assign_id_hash md5hex fp c) = md5hex (Content c)"
  by (simp_all add: assign_id_hash_def)

text \<open>
  The id and the hash of every chunk \<open>chunkFile\<close> returns are the digests the data
  model names: the id of \<open>file_path:start_line:end_line\<close>, the hash of the content.
\<close>

lemma chunkFile_ids_hashes:
  assumes "chunkFile md5hex cfg content fp pp lang = Inr chunks"
  shows "\<forall>c\<in>set chunks.
     ID c = md5hex (fp @ '':'' @ show_int (StartLine c) @ '':'' @ show_int (EndLine c))
     \<and> Hash c = md5hex (Content c)"
  using assms
  by (cases rule: chunkFile_cases) (auto simp: assign_id_hash_id assign_id_hash_fields)

lemma two_funcs_go_funcMatches:
  "FindAllStringSubmatchIndex funcPattern two_funcs_go = [ [0, 10, 5, 6, 7, 7], [13, 23, 18, 19, 20, 20] ]"
  by (simp add: regex_eval funcPattern_def two_funcs_go_def)

lemma two_funcs_go_methodMatches:
  "FindAllStringSubmatchIndex methodPattern two_funcs_go = []"
  by (simp add: regex_eval methodPattern_def two_funcs_go_def)

lemma chunkGoCode_two_funcs_go:
  "chunkGoCode two_funcs_go fp pp =
     [zero_chunk\<lparr>FilePath := fp, ProjectPath := pp, Content := ''func A() { } '',
        StartLine := 1, EndLine := 1,
        EntityType := ''function'', Name := ''A'', Signature := [], Language := ''Go''\<rparr>,
      zero_chunk\<lparr>FilePath := fp, ProjectPath := pp, Content := ''func B() { }'',
        StartLine := 1, EndLine := 1,
        EntityType := ''function'', Name := ''B'', Signature := [], Language := ''Go''\<rparr>]"
  unfolding chunkGoCode_def two_funcs_go_funcMatches two_funcs_go_methodMatches
  by (simp add: go_eval two_funcs_go_def)

text \<open>
  C3 fails on the code. The one-line Go file \<open>func A() { } func B() { }\<close> gives two
  chunks, both on lines 1 to 1, so both with the id of \<open>a.go:1:1\<close>. In the first run the
  second chunk overwrites the first under that id. In the second run the stored hash is
  that of \<open>B\<close>, the first chunk differs from it and is written, and then the second chunk
  is written again: two writes for an unchanged file, where the contents have different
  digests.
\<close>

theorem storeChunks_rewrites_chunks_sharing_lines:
  assumes "md5hex ''func A() { } '' \<noteq> md5hex ''func B() { }''"
  shows "\<exists>a b. chunkFile md5hex DefaultConfig two_funcs_go ''a.go'' ''.'' ''Go'' = Inr [a, b]
     \<and> Content a = ''func A() { } '' \<and> Content b = ''func B() { }''
     \<and> ID a = md5hex (''a.go:'' @ show_int 1 @ '':'' @ show_int 1) \<and> ID b = ID a
     \<and> snd (storeChunks (fst (storeChunks Map.empty [a, b])) [a, b]) = [a, b]"
proof -
  let ?cs = "chunkGoCode two_funcs_go ''a.go'' ''.''"
  let ?a = "assign_id_hash md5hex ''a.go'' (hd ?cs)"
  let ?b = "assign_id_hash md5hex ''a.go'' (hd (tl ?cs))"
  have run: "chunkFile md5hex DefaultConfig two_funcs_go ''a.go'' ''.'' ''Go'' = Inr [?a, ?b]"
    by (simp add: chunkFile_def chunkGoCode_two_funcs_go)
  have a: "Content ?a = ''func A() { } ''" "ID ?a = md5hex (''a.go:'' @ show_int 1 @ '':'' @ show_int 1)"
      "Hash ?a = md5hex ''func A() { } ''"
    by (simp_all add: chunkGoCode_two_funcs_go assign_id_hash_def zero_chunk_def)
  have b: "Content ?b = ''func B() { }''" "ID ?b = md5hex (''a.go:'' @ show_int 1 @ '':'' @ show_int 1)"
      "Hash ?b = md5hex ''func B() { }''"
    by (simp_all add: chunkGoCode_two_funcs_go assign_id_hash_def zero_chunk_def)
  have ids: "ID ?b = ID ?a"
    using a(2) b(2) by simp
  have differ: "Hash ?a \<noteq> Hash ?b" "Hash ?b \<noteq> Hash ?a"
    using assms a(3) b(3) by simp_all
  have first: "fst (storeChunks Map.empty [?a, ?b]) = [ID ?a \<mapsto> ?b]"
    using differ by (simp add: ids)
  have second: "snd (storeChunks [ID ?a \<mapsto> ?b] [?a, ?b]) = [?a, ?b]"
    using differ by (simp add: ids)
  show ?thesis
    using run a(1,2) b(1) ids first second by (intro exI [of _ ?a] exI [of _ ?b]) simp
qed

theorem storeChunks_rewrites_chunks_sharing_lines_witness:
  "(\<lambda>s. s) ''func A() { } '' \<noteq> (\<lambda>s :: string. s) ''func B() { }''
   \<and> (\<exists>a b. chunkFile (\<lambda>s. s) DefaultConfig two_funcs_go ''a.go'' ''.'' ''Go'' = Inr [a, b]
        \<and> ID b = ID a
        \<and> snd (storeChunks (fst (storeChunks Map.empty [a, b])) [a, b]) = [a, b])"
proof -
  have h: "(\<lambda>s. s) ''func A() { } '' \<noteq> (\<lambda>s :: string. s) ''func B() { }''"
    by simp
  show ?thesis
    using h storeChunks_rewrites_chunks_sharing_lines [of "\<lambda>s. s", OF h] by blast
qed

section \<open>The project of a file\<close>

text \<open>
  C10. When the path of the file relative to the root is \<open>d/...\<close>, with at least one
  separator, the project path is the root joined with the first component \<open>d\<close>; when the
  relative path is a single component, the file sits in the root and the project path
  is the root itself.
\<close>

theorem processFile_projectPath_first_component:
  assumes rel: "filepath_Rel rootDir filePath = Inr (strings_Join separator (d # ds))"
    and parts: "\<forall>part\<in>set (d # ds). separator \<notin> set part"
  shows "processFile_projectPath filepath_Rel filepath_Join separator filePath rootDir
     = (if ds = [] then rootDir else filepath_Join rootDir d)"
proof -
  have "strings_Split separator (strings_Join separator (d # ds)) = d # ds"
    using parts by (intro strings_Split_Join) simp_all
  then show ?thesis
    by (simp add: processFile_projectPath_def rel)
qed

theorem processFile_projectPath_first_component_witness:
  "(\<lambda>root file. Inr (drop (length root + 1) file)) ''/code'' ''/code/proj/pkg/a.go''
     = (Inr (strings_Join CHR ''/'' [''proj'', ''pkg'', ''a.go'']) :: error + string)
   \<and> list_all (\<lambda>part. CHR ''/'' \<notin> set part) [''proj'', ''pkg'', ''a.go'']
   \<and> processFile_projectPath (\<lambda>root file. Inr (drop (length root + 1) file))
        (\<lambda>dir part. dir @ ''/'' @ part) CHR ''/'' ''/code/proj/pkg/a.go'' ''/code'' = ''/code/proj''
   \<and> processFile_projectPath (\<lambda>root file. Inr (drop (length root + 1) file))
        (\<lambda>dir part. dir @ ''/'' @ part) CHR ''/'' ''/code/a.go'' ''/code'' = ''/code''"
proof -
  let ?rel = "\<lambda>root file :: string. (Inr (drop (length root + 1) file) :: error + string)"
  let ?join = "\<lambda>dir part :: string. dir @ ''/'' @ part"
  have r1: "?rel ''/code'' ''/code/proj/pkg/a.go'' = Inr (strings_Join CHR ''/'' [''proj'', ''pkg'', ''a.go''])"
    by simp
  have p1: "\<forall>part\<in>set [''proj'', ''pkg'', ''a.go'']. CHR ''/'' \<notin> set part"
    by simp
  have r2: "?rel ''/code'' ''/code/a.go'' = Inr (strings_Join CHR ''/'' [''a.go''])"
    by simp
  have p2: "\<forall>part\<in>set [''a.go'']. CHR ''/'' \<notin> set part"
    by simp
  have "processFile_projectPath ?rel ?join CHR ''/'' ''/code/proj/pkg/a.go'' ''/code'' = ''/code/proj''"
    using processFile_projectPath_first_component [of ?rel "''/code''" "''/code/proj/pkg/a.go''" "CHR ''/''"
        "''proj''" "[''pkg'', ''a.go'']" ?join, OF r1 p1]
    by simp
  moreover have "processFile_projectPath ?rel ?join CHR ''/'' ''/code/a.go'' ''/code'' = ''/code''"
    using processFile_projectPath_first_component [of ?rel "''/code''" "''/code/a.go''" "CHR ''/''"
        "''a.go''" "[]" ?join, OF r2 p2]
    by simp
  ultimately show ?thesis
    using r1 p1 unfolding list_all_iff by blast
qed

end
